theory Spec2Isabelle
  imports Main "HOL-Library.Word" "HOL-Library.Char_ord" "HOL-Library.List_Lexorder"
begin

section \<open>The migration engine of dbmate (pkg/dbmate/db.go)\<close>

text \<open>
  The engine talks to a database server, to the file system and to the clock. None of
  these is part of db.go, so the model is parametric in them: the state of everything
  outside the engine is a value of an arbitrary type \<open>'s\<close>, and every external
  operation is a function from that state to a result and a new state. Go's \<open>error\<close>
  is the error's message; \<open>nil\<close> is \<open>None\<close>. A function returning \<open>(T, error)\<close>
  returns \<open>error + T\<close>, with \<open>Inl\<close> the error.
\<close>

subsection \<open>Data\<close>

type_synonym error = string

text \<open>\<open>time.Duration\<close> is a signed 64-bit count of nanoseconds.\<close>

type_synonym Duration = "64 word"

text \<open>Handles of \<open>*sql.DB\<close> and \<open>*sql.Tx\<close> values.\<close>

type_synonym sqlDB = nat
type_synonym sqlTx = nat

text \<open>
  The interface \<open>Transaction\<close> is implemented by \<open>*sql.DB\<close> (statements run directly
  on the connection) and by \<open>*sql.Tx\<close> (statements run inside a transaction).
\<close>

datatype Transaction = OnDB sqlDB | OnTx sqlTx

text \<open>Of \<open>*url.URL\<close> the engine reads the scheme only.\<close>

record URL =
  Scheme :: string
  Opaque :: string

text \<open>
  One section of a migration file, as \<open>parseMigration\<close> returns it. The type lives in
  migrations.go, which is not among the sources; of its options the engine only calls
  \<open>Options.Transaction()\<close>, whose result is the field \<open>OptionsTransaction\<close>.
\<close>

record Migration =
  Contents :: string
  OptionsTransaction :: bool

text \<open>
  A Go \<open>map[string]bool\<close> as an association list with distinct keys; the order of
  the list is the order in which \<open>range\<close> visits the keys.
\<close>

type_synonym versions = "(string \<times> bool) list"

record DB =
  AutoDumpSchema :: bool
  DatabaseURL :: URL
  MigrationsDir :: string
  SchemaFile :: string
  WaitBefore :: bool
  WaitInterval :: Duration
  WaitTimeout :: Duration
  NativeEngine :: bool

subsection \<open>The outside world\<close>

text \<open>Every call that leaves the engine, with its arguments and what it returned.\<close>

datatype call =
    C_Ping "error option"
  | C_Sleep Duration
  | C_Open "error + sqlDB"
  | C_Close sqlDB
  | C_CreateMigrationsTable sqlDB "error option"
  | C_SelectMigrations sqlDB int "error + versions"
  | C_InsertMigration Transaction string "error option"
  | C_DeleteMigration Transaction string "error option"
  | C_DumpSchema sqlDB "error + string"
  | C_Begin sqlDB "error + sqlTx"
  | C_Commit sqlTx "error option"
  | C_Rollback sqlTx "error option"
  | C_Exec Transaction string "error option"
  | C_ReadDir string "error + (string \<times> bool) list"
  | C_ParseMigration string "error + Migration \<times> Migration"
  | C_EnsureDir string "error option"
  | C_WriteFile string string "error option"

text \<open>The interface \<open>Driver\<close> (driver.go), taken as a parameter.\<close>

record 's Driver =
  drvPing :: "URL \<Rightarrow> 's \<Rightarrow> error option \<times> 's"
  drvOpen :: "URL \<Rightarrow> 's \<Rightarrow> (error + sqlDB) \<times> 's"
  drvCreateMigrationsTable :: "sqlDB \<Rightarrow> 's \<Rightarrow> error option \<times> 's"
  drvSelectMigrations :: "sqlDB \<Rightarrow> int \<Rightarrow> 's \<Rightarrow> (error + versions) \<times> 's"
  drvInsertMigration :: "Transaction \<Rightarrow> string \<Rightarrow> 's \<Rightarrow> error option \<times> 's"
  drvDeleteMigration :: "Transaction \<Rightarrow> string \<Rightarrow> 's \<Rightarrow> error option \<times> 's"
  drvDumpSchema :: "URL \<Rightarrow> sqlDB \<Rightarrow> 's \<Rightarrow> (error + string) \<times> 's"

text \<open>
  What the engine uses of \<open>database/sql\<close>, \<open>io/ioutil\<close>, \<open>path/filepath\<close> and
  \<open>time\<close>, and the helpers of the files that are not among the sources
  (\<open>GetDriver\<close>, \<open>parseMigration\<close>, \<open>ensureDir\<close>). A directory entry is its name and
  whether it is a directory.
\<close>

record 's Sys =
  sysGetDriver :: "string \<Rightarrow> error + 's Driver"
  sysBegin :: "sqlDB \<Rightarrow> 's \<Rightarrow> (error + sqlTx) \<times> 's"
  sysCommit :: "sqlTx \<Rightarrow> 's \<Rightarrow> error option \<times> 's"
  sysRollback :: "sqlTx \<Rightarrow> 's \<Rightarrow> error option \<times> 's"
  sysExec :: "Transaction \<Rightarrow> string \<Rightarrow> 's \<Rightarrow> error option \<times> 's"
  sysClose :: "sqlDB \<Rightarrow> 's \<Rightarrow> 's"
  sysReadDir :: "string \<Rightarrow> 's \<Rightarrow> (error + (string \<times> bool) list) \<times> 's"
  sysParseMigration :: "string \<Rightarrow> 's \<Rightarrow> (error + Migration \<times> Migration) \<times> 's"
  sysEnsureDir :: "string \<Rightarrow> 's \<Rightarrow> error option \<times> 's"
  sysWriteFile :: "string \<Rightarrow> string \<Rightarrow> 's \<Rightarrow> error option \<times> 's"
  sysSleep :: "Duration \<Rightarrow> 's \<Rightarrow> 's"
  sysJoin :: "string \<Rightarrow> string \<Rightarrow> string"
  sysDir :: "string \<Rightarrow> string"

text \<open>
  The state the engine runs in: the outside world, the calls made so far (oldest first)
  and the lines printed on standard output so far.
\<close>

record 's world =
  ext :: 's
  calls :: "call list"
  out :: "string list"

definition extern :: "('s \<Rightarrow> 'a \<times> 's) \<Rightarrow> ('a \<Rightarrow> call) \<Rightarrow> 's world \<Rightarrow> 'a \<times> 's world" where
  "extern f ev w =
     (case f (ext w) of (r, s') \<Rightarrow> (r, w\<lparr>ext := s', calls := calls w @ [ev r]\<rparr>))"

definition extern0 :: "('s \<Rightarrow> 's) \<Rightarrow> call \<Rightarrow> 's world \<Rightarrow> 's world" where
  "extern0 f c w = w\<lparr>ext := f (ext w), calls := calls w @ [c]\<rparr>"

definition Print :: "string \<Rightarrow> 's world \<Rightarrow> 's world" where
  "Print s w = w\<lparr>out := out w @ [s]\<rparr>"

definition Begin :: "'s Sys \<Rightarrow> sqlDB \<Rightarrow> 's world \<Rightarrow> (error + sqlTx) \<times> 's world" where
  "Begin sys db = extern (sysBegin sys db) (C_Begin db)"

definition Commit :: "'s Sys \<Rightarrow> sqlTx \<Rightarrow> 's world \<Rightarrow> error option \<times> 's world" where
  "Commit sys tx = extern (sysCommit sys tx) (C_Commit tx)"

definition TxRollback :: "'s Sys \<Rightarrow> sqlTx \<Rightarrow> 's world \<Rightarrow> error option \<times> 's world" where
  "TxRollback sys tx = extern (sysRollback sys tx) (C_Rollback tx)"

definition Exec :: "'s Sys \<Rightarrow> Transaction \<Rightarrow> string \<Rightarrow> 's world \<Rightarrow> error option \<times> 's world" where
  "Exec sys tx q = extern (sysExec sys tx q) (C_Exec tx q)"

text \<open>The calls made between two states of the same run.\<close>

definition since :: "'s world \<Rightarrow> 's world \<Rightarrow> call list" where
  "since w w' = drop (length (calls w)) (calls w')"

subsection \<open>doTransaction\<close>

definition doTransaction ::
  "'s Sys \<Rightarrow> sqlDB \<Rightarrow> (Transaction \<Rightarrow> 's world \<Rightarrow> error option \<times> 's world) \<Rightarrow>
   's world \<Rightarrow> error option \<times> 's world" where
  "doTransaction sys db txFunc w =
     (case Begin sys db w of
        (Inl err, w1) \<Rightarrow> (Some err, w1)
      | (Inr tx, w1) \<Rightarrow>
          (case txFunc (OnTx tx) w1 of
             (Some err, w2) \<Rightarrow>
               (case TxRollback sys tx w2 of
                  (Some err1, w3) \<Rightarrow> (Some err1, w3)
                | (None, w3) \<Rightarrow> (Some err, w3))
           | (None, w2) \<Rightarrow> Commit sys tx w2))"

subsection \<open>Characters\<close>

abbreviation nl :: char where "nl \<equiv> CHR 0x0A"
abbreviation cr :: char where "cr \<equiv> CHR 0x0D"
abbreviation dquote :: char where "dquote \<equiv> CHR 0x22"
abbreviation bquote :: char where "bquote \<equiv> CHR 0x60"
abbreviation bslash :: char where "bslash \<equiv> CHR 0x5C"
abbreviation slash :: char where "slash \<equiv> CHR 0x2F"

definition isDigit :: "char \<Rightarrow> bool" where
  "isDigit c \<longleftrightarrow> CHR ''0'' \<le> c \<and> c \<le> CHR ''9''"

subsection \<open>UTF-8\<close>

text \<open>
  A Go string is a sequence of bytes, here of \<open>char\<close>. \<open>utf8.DecodeRuneInString\<close> reads
  one rune from the front of a string and returns its code point and the number of bytes
  read; at a byte that starts no valid encoding it returns \<open>RuneError\<close> and the width 1.
\<close>

definition RuneError :: nat where
  "RuneError = 0xFFFD"

fun DecodeRuneInString :: "string \<Rightarrow> nat \<times> nat" where
  "DecodeRuneInString [] = (RuneError, 0)"
| "DecodeRuneInString (c0 # s) =
     (let s0 = (of_char c0 :: nat) in
      if s0 < 0x80 then (s0, 1)
      else if s0 < 0xC2 \<or> 0xF4 < s0 then (RuneError, 1)
      else
        (let sz = (if s0 < 0xE0 then 2 else if s0 < 0xF0 then 3 else 4 :: nat);
             lo = (if s0 = 0xE0 then 0xA0 else if s0 = 0xF0 then 0x90 else 0x80 :: nat);
             hi = (if s0 = 0xED then 0x9F else if s0 = 0xF4 then 0x8F else 0xBF :: nat)
         in
           if Suc (length s) < sz then (RuneError, 1)
           else
             (let s1 = (of_char (s ! 0) :: nat) in
              if s1 < lo \<or> hi < s1 then (RuneError, 1)
              else if sz \<le> 2 then (s0 mod 0x20 * 0x40 + s1 mod 0x40, 2)
              else
                (let s2 = (of_char (s ! 1) :: nat) in
                 if s2 < 0x80 \<or> 0xBF < s2 then (RuneError, 1)
                 else if sz \<le> 3 then
                   (s0 mod 0x10 * 0x1000 + s1 mod 0x40 * 0x40 + s2 mod 0x40, 3)
                 else
                   (let s3 = (of_char (s ! 2) :: nat) in
                    if s3 < 0x80 \<or> 0xBF < s3 then (RuneError, 1)
                    else
                      (s0 mod 8 * 0x40000 + s1 mod 0x40 * 0x1000 + s2 mod 0x40 * 0x40
                         + s3 mod 0x40, 4))))))"

lemma DecodeRuneInString_size: "s \<noteq> [] \<Longrightarrow> 0 < snd (DecodeRuneInString s)"
  by (cases s) (simp_all add: Let_def)

lemma DecodeRuneInString_shorter:
  "s \<noteq> [] \<Longrightarrow> (r, n) = DecodeRuneInString s \<Longrightarrow> length s - n < length s"
  using DecodeRuneInString_size [of s] by (cases "DecodeRuneInString s") auto

text \<open>
  \<open>checkUTF8\<close> of \<open>regexp/syntax\<close>, which the parser of patterns applies to the text of a
  pattern, rune by rune: the pattern is refused at the first \<open>RuneError\<close> of width 1.
\<close>

function validUTF8 :: "string \<Rightarrow> bool" where
  "validUTF8 s =
     (if s = [] then True
      else
        (case DecodeRuneInString s of
           (r, n) \<Rightarrow> \<not> (r = RuneError \<and> n = 1) \<and> validUTF8 (drop n s)))"
  by pat_completeness auto
termination
  by (relation "measure length") (auto dest: DecodeRuneInString_shorter)

declare validUTF8.simps [simp del]

text \<open>
  The runes a compiled pattern reads from the string it is matched against
  (\<open>inputString.step\<close> of \<open>regexp\<close>): a byte that starts no valid encoding is read as
  \<open>RuneError\<close>.
\<close>

function runes :: "string \<Rightarrow> nat list" where
  "runes s =
     (if s = [] then []
      else (case DecodeRuneInString s of (r, n) \<Rightarrow> r # runes (drop n s)))"
  by pat_completeness auto
termination
  by (relation "measure length") (auto dest: DecodeRuneInString_shorter)

declare runes.simps [simp del]

subsection \<open>Migration file names\<close>

text \<open>
  The tail \<open>.*\.sql$\<close> of both file-name patterns: any characters but a newline, then
  \<open>.sql\<close>, then the end of the name.
\<close>

definition matchTail :: "string \<Rightarrow> bool" where
  "matchTail s \<longleftrightarrow>
     4 \<le> length s \<and> drop (length s - 4) s = ''.sql'' \<and> nl \<notin> set (take (length s - 4) s)"

text \<open>\<open>migrationFileRegexp\<close>, the pattern \<open>^\d.*\.sql$\<close>.\<close>

definition migrationFileRegexp :: "string \<Rightarrow> bool" where
  "migrationFileRegexp name =
     (case name of [] \<Rightarrow> False | c # s \<Rightarrow> isDigit c \<and> matchTail s)"

text \<open>\<open>regexp.QuoteMeta\<close>: a backslash before every character with a meaning in a pattern.\<close>

definition QuoteMeta :: "string \<Rightarrow> string" where
  "QuoteMeta s =
     concat (map (\<lambda>c. if c \<in> set (bslash # ''.+*?()|[]{}^$'') then [bslash, c] else [c]) s)"

text \<open>
  The text \<open>^%s.*\.sql$\<close> of the pattern that \<open>findMigrationFile\<close> builds from the quoted
  version. \<open>regexp.MustCompile\<close> panics on it when it is not valid UTF-8; the quoting leaves
  no other way for it to be refused.
\<close>

definition versionPattern :: "string \<Rightarrow> string" where
  "versionPattern ver = ''^'' @ QuoteMeta ver @ ''.*'' @ [bslash] @ ''.sql$''"

text \<open>
  What that pattern matches, once compiled: the runes of the name start with the runes of the
  version, and any runes but a newline, then \<open>.sql\<close>, then the end of the name follow. The
  match is rune by rune, so a \<open>RuneError\<close> in the version also matches a byte of the name
  that starts no valid encoding.
\<close>

definition matchTailRunes :: "nat list \<Rightarrow> bool" where
  "matchTailRunes rs \<longleftrightarrow>
     4 \<le> length rs \<and> drop (length rs - 4) rs = map of_char ''.sql''
     \<and> of_char nl \<notin> set (take (length rs - 4) rs)"

definition versionFileRegexp :: "string \<Rightarrow> string \<Rightarrow> bool" where
  "versionFileRegexp ver name \<longleftrightarrow>
     take (length (runes ver)) (runes name) = runes ver
     \<and> matchTailRunes (drop (length (runes ver)) (runes name))"

text \<open>\<open>migrationVersion\<close>: what \<open>^\d+\<close> finds, the longest run of digits at the start.\<close>

definition migrationVersion :: "string \<Rightarrow> string" where
  "migrationVersion filename = takeWhile isDigit filename"

subsection \<open>parseStatements\<close>

text \<open>
  \<open>strings.TrimSpace(s) != ""\<close> fails exactly when \<open>s\<close> is a sequence of white-space
  characters in the sense of Unicode. \<open>dropSpace\<close> removes one such character, in its
  UTF-8 encoding, from the front.
\<close>

definition dropSpace :: "string \<Rightarrow> string option" where
  "dropSpace s =
     (case s of
        [] \<Rightarrow> None
      | c # r \<Rightarrow>
          if c \<in> set [CHR 0x09, CHR 0x0A, CHR 0x0B, CHR 0x0C, CHR 0x0D, CHR 0x20] then Some r
          else (case r of
              [] \<Rightarrow> None
            | d # r2 \<Rightarrow>
                if c = CHR 0xC2 \<and> (d = CHR 0x85 \<or> d = CHR 0xA0) then Some r2
                else (case r2 of
                    [] \<Rightarrow> None
                  | e # r3 \<Rightarrow>
                      if (c = CHR 0xE1 \<and> d = CHR 0x9A \<and> e = CHR 0x80)
                       \<or> (c = CHR 0xE2 \<and> d = CHR 0x80
                            \<and> (CHR 0x80 \<le> e \<and> e \<le> CHR 0x8A
                                 \<or> e = CHR 0xA8 \<or> e = CHR 0xA9 \<or> e = CHR 0xAF))
                       \<or> (c = CHR 0xE2 \<and> d = CHR 0x81 \<and> e = CHR 0x9F)
                       \<or> (c = CHR 0xE3 \<and> d = CHR 0x80 \<and> e = CHR 0x80)
                      then Some r3 else None)))"

lemma dropSpace_shorter: "dropSpace s = Some r \<Longrightarrow> length r < length s"
  by (auto simp: dropSpace_def split: list.splits if_splits)

function blank :: "string \<Rightarrow> bool" where
  "blank s = (s = [] \<or> (case dropSpace s of None \<Rightarrow> False | Some r \<Rightarrow> blank r))"
  by pat_completeness auto
termination
  by (relation "measure length") (auto dest: dropSpace_shorter)

declare blank.simps [simp del]

text \<open>
  The scanner of \<open>text/scanner\<close> as \<open>parseStatements\<close> sets it up. \<open>Init\<close> selects
  the mode \<open>GoTokens\<close> and Go's white space; the function then keeps only the carriage
  return as white space, lets no character start an identifier and switches
  \<open>ScanChars\<close> off. What remains on: numbers, strings in double quotes, raw strings in
  backquotes, and comments, which are skipped. The scanner works on the remaining
  input; the text of a token is the part of the input it consumed.

  A number is one token and a character outside every other case is a token of its
  own. Both leave their text as it stands in the input, and a number consists of
  digits, letters, \<open>_\<close>, \<open>.\<close>, \<open>+\<close> and \<open>-\<close>, none of which is skipped or starts a
  string or a comment. \<open>parseStatements\<close> only appends the texts of the tokens, so the
  model reads a number character by character.
\<close>

definition tokEOF :: int where "tokEOF = -1"
definition tokString :: int where "tokString = -6"
definition tokRawString :: int where "tokRawString = -7"

definition endOfStatement :: int where
  "endOfStatement = of_char CHR '';''"

definition digitVal :: "char \<Rightarrow> nat" where
  "digitVal c =
     (if CHR ''0'' \<le> c \<and> c \<le> CHR ''9'' then of_char c - 48
      else if CHR ''a'' \<le> c \<and> c \<le> CHR ''f'' then of_char c - 97 + 10
      else if CHR ''A'' \<le> c \<and> c \<le> CHR ''F'' then of_char c - 65 + 10
      else 16)"

text \<open>\<open>scanDigits\<close>: at most \<open>n\<close> digits of the base; the result is the input left.\<close>

fun scanDigits :: "nat \<Rightarrow> nat \<Rightarrow> string \<Rightarrow> string" where
  "scanDigits base n [] = []"
| "scanDigits base n (c # cs) =
     (if 0 < n \<and> digitVal c < base then scanDigits base (n - 1) cs else c # cs)"

text \<open>
  \<open>scanEscape\<close>, on the input after the backslash. After an escape it does not know
  the scanner reports an error and leaves the character to the caller.
\<close>

definition scanEscape :: "char \<Rightarrow> string \<Rightarrow> string" where
  "scanEscape quote s =
     (case s of
        [] \<Rightarrow> []
      | c # r \<Rightarrow>
          if c \<in> set ''abfnrtv'' \<or> c = bslash \<or> c = quote then r
          else if CHR ''0'' \<le> c \<and> c \<le> CHR ''7'' then scanDigits 8 3 (c # r)
          else if c = CHR ''x'' then scanDigits 16 2 r
          else if c = CHR ''u'' then scanDigits 16 4 r
          else if c = CHR ''U'' then scanDigits 16 8 r
          else c # r)"

lemma scanDigits_length: "length (scanDigits base n s) \<le> length s"
  by (induction s arbitrary: n) (auto simp: le_SucI)

lemma scanEscape_length: "length (scanEscape quote s) \<le> length s"
  by (auto simp: scanEscape_def le_SucI scanDigits_length split: list.splits
      intro: le_trans [OF scanDigits_length])

text \<open>
  \<open>scanString\<close> followed by the \<open>next\<close> of \<open>Scan\<close>, on the input after the opening
  quote: the literal ends after the closing quote, after the newline that leaves it
  unterminated, or with the input.
\<close>

function scanString :: "char \<Rightarrow> string \<Rightarrow> string" where
  "scanString quote [] = []"
| "scanString quote (c # cs) =
     (if c = quote then cs
      else if c = nl then cs
      else if c = bslash then scanString quote (scanEscape quote cs)
      else scanString quote cs)"
  by pat_completeness auto
termination
  by (relation "measure (\<lambda>(quote, s). length s)")
     (auto simp: less_Suc_eq_le scanEscape_length)

text \<open>\<open>scanRawString\<close> followed by the \<open>next\<close> of \<open>Scan\<close>, on the input after the backquote.\<close>

definition scanRawString :: "string \<Rightarrow> string" where
  "scanRawString s = drop 1 (dropWhile (\<lambda>c. c \<noteq> bquote) s)"

text \<open>
  \<open>scanComment\<close>. A line comment, on the input after \<open>//\<close>, ends before the newline; a
  general comment, on the input after \<open>/*\<close>, ends after the first \<open>*/\<close>.
\<close>

definition scanLineComment :: "string \<Rightarrow> string" where
  "scanLineComment s = dropWhile (\<lambda>c. c \<noteq> nl) s"

fun scanGeneralComment :: "string \<Rightarrow> string" where
  "scanGeneralComment (c # d # r) =
     (if c = CHR ''*'' \<and> d = slash then r else scanGeneralComment (d # r))"
| "scanGeneralComment s = []"

lemma scanGeneralComment_length: "length (scanGeneralComment s) \<le> length s"
  by (induction s rule: scanGeneralComment.induct) auto

lemma scanString_length: "length (scanString quote s) \<le> length s"
proof (induction quote s rule: scanString.induct)
  case (1 quote)
  then show ?case by simp
next
  case (2 quote c cs)
  have "length (scanEscape quote cs) \<le> length cs" by (rule scanEscape_length)
  with 2 show ?case by (auto simp: le_SucI intro: le_trans)
qed

text \<open>
  \<open>Scan\<close>: the token (a character's code, or a negative code for the end of input and
  for a literal), its text, and the input left.
\<close>

function Scan :: "string \<Rightarrow> int \<times> string \<times> string" where
  "Scan [] = (tokEOF, [], [])"
| "Scan (c # r) =
     (if c = cr then Scan r
      else if c = dquote then
        (let rest = scanString dquote r
         in (tokString, take (Suc (length r) - length rest) (c # r), rest))
      else if c = slash then
        (case r of
           [] \<Rightarrow> (of_char c, [c], r)
         | d # r' \<Rightarrow>
             if d = slash then Scan (scanLineComment r')
             else if d = CHR ''*'' then Scan (scanGeneralComment r')
             else (of_char c, [c], r))
      else if c = bquote then
        (let rest = scanRawString r
         in (tokRawString, take (Suc (length r) - length rest) (c # r), rest))
      else (of_char c, [c], r))"
  by pat_completeness auto
termination
proof (relation "measure length")
  show "wf (measure length)" by simp
next
  fix c :: char and r :: string
  show "(r, c # r) \<in> measure length" by simp
next
  fix c :: char and r :: string and d :: char and r' :: string
  assume "r = d # r'"
  moreover have "length (scanLineComment r') \<le> length r'"
    by (simp add: scanLineComment_def length_dropWhile_le)
  ultimately show "(scanLineComment r', c # r) \<in> measure length" by simp
next
  fix c :: char and r :: string and d :: char and r' :: string
  assume "r = d # r'"
  moreover have "length (scanGeneralComment r') \<le> length r'"
    by (rule scanGeneralComment_length)
  ultimately show "(scanGeneralComment r', c # r) \<in> measure length" by simp
qed

lemma Scan_shorter: "Scan s = (tok, lit, rest) \<Longrightarrow> tok \<noteq> tokEOF \<Longrightarrow> length rest < length s"
proof (induction s arbitrary: tok lit rest rule: Scan.induct)
  case 1
  then show ?case by simp
next
  case (2 c r)
  have a: "length (scanString dquote r) \<le> length r" by (rule scanString_length)
  have b: "length (scanRawString r) \<le> length r"
    using length_dropWhile_le [of "\<lambda>c. c \<noteq> bquote" r] by (simp add: scanRawString_def)
  have l: "\<And>r'. length (scanLineComment r') \<le> length r'"
    by (simp add: scanLineComment_def length_dropWhile_le)
  have g: "\<And>r'. length (scanGeneralComment r') \<le> length r'"
    by (rule scanGeneralComment_length)
  show ?case
  proof (cases "c = cr")
    case True
    with 2 show ?thesis by (auto simp: less_Suc_eq)
  next
    case ncr: False
    show ?thesis
    proof (cases "c = slash")
      case True
      show ?thesis
      proof (cases r)
        case Nil
        with True ncr 2 show ?thesis by auto
      next
        case (Cons d r')
        consider "d = slash" | "d \<noteq> slash" "d = CHR ''*''" | "d \<noteq> slash" "d \<noteq> CHR ''*''"
          by blast
        then show ?thesis
        proof cases
          case 1
          with 2 ncr True Cons have "length rest < length (scanLineComment r')"
            by auto
          with l [of r'] Cons show ?thesis by simp
        next
          case 2
          with "2.IH"(3) [of d r' tok lit rest] "2.prems" ncr True Cons
          have "length rest < length (scanGeneralComment r')"
            by auto
          with g [of r'] Cons show ?thesis by simp
        next
          case 3
          with 2 ncr True Cons show ?thesis by auto
        qed
      qed
    next
      case False
      with 2 ncr a b show ?thesis
        by (auto simp: Let_def less_Suc_eq_le split: if_splits)
    qed
  qed
qed

text \<open>
  The loop of \<open>parseStatements\<close>. The very first read of the scanner drops a byte-order
  mark at the start of the input.
\<close>

definition skipBOM :: "string \<Rightarrow> string" where
  "skipBOM s = (if take 3 s = [CHR 0xEF, CHR 0xBB, CHR 0xBF] then drop 3 s else s)"

function scanLoop :: "string \<Rightarrow> string \<Rightarrow> string list \<Rightarrow> string list" where
  "scanLoop s statement statements =
     (case Scan s of
        (tok, lit, rest) \<Rightarrow>
          if tok = tokEOF then
            (if \<not> blank statement then statements @ [statement] else statements)
          else if tok = endOfStatement then
            scanLoop rest [] (if \<not> blank statement then statements @ [statement] else statements)
          else scanLoop rest (statement @ lit) statements)"
  by pat_completeness auto
termination
  by (relation "measure (\<lambda>(s, statement, statements). length s)")
     (auto dest: Scan_shorter [OF sym])

declare scanLoop.simps [simp del]

definition parseStatements :: "string \<Rightarrow> string list" where
  "parseStatements script = scanLoop (skipBOM script) [] []"

text \<open>
  The splitting rule in the words of the specification: every character is copied
  except \<open>;\<close>, which closes the current fragment, and the end of the input closes the
  last one; the statements are the fragments that are not blank.
\<close>

fun fragments :: "string \<Rightarrow> string list" where
  "fragments [] = [[]]"
| "fragments (c # cs) =
     (if c = CHR '';'' then [] # fragments cs
      else (case fragments cs of [] \<Rightarrow> [[c]] | f # fs \<Rightarrow> (c # f) # fs))"

definition splitStatements :: "string \<Rightarrow> string list" where
  "splitStatements script = filter (\<lambda>s. \<not> blank s) (fragments script)"

text \<open>
  A script with no carriage return, double quote, backquote or slash, and no
  byte-order mark at its start.
\<close>

definition plain :: "string \<Rightarrow> bool" where
  "plain script \<longleftrightarrow>
     cr \<notin> set script \<and> dquote \<notin> set script \<and> bquote \<notin> set script \<and> slash \<notin> set script
     \<and> take 3 script \<noteq> [CHR 0xEF, CHR 0xBB, CHR 0xBF]"

subsection \<open>Calls of the driver, the file system and the clock\<close>

definition GetDriver :: "'s Sys \<Rightarrow> DB \<Rightarrow> error + 's Driver" where
  "GetDriver sys db = sysGetDriver sys (Scheme (DatabaseURL db))"

definition Ping :: "'s Driver \<Rightarrow> URL \<Rightarrow> 's world \<Rightarrow> error option \<times> 's world" where
  "Ping drv u = extern (drvPing drv u) C_Ping"

definition Sleep :: "'s Sys \<Rightarrow> Duration \<Rightarrow> 's world \<Rightarrow> 's world" where
  "Sleep sys d = extern0 (sysSleep sys d) (C_Sleep d)"

definition Open :: "'s Driver \<Rightarrow> URL \<Rightarrow> 's world \<Rightarrow> (error + sqlDB) \<times> 's world" where
  "Open drv u = extern (drvOpen drv u) C_Open"

definition CreateMigrationsTable ::
  "'s Driver \<Rightarrow> sqlDB \<Rightarrow> 's world \<Rightarrow> error option \<times> 's world" where
  "CreateMigrationsTable drv c = extern (drvCreateMigrationsTable drv c) (C_CreateMigrationsTable c)"

definition SelectMigrations ::
  "'s Driver \<Rightarrow> sqlDB \<Rightarrow> int \<Rightarrow> 's world \<Rightarrow> (error + versions) \<times> 's world" where
  "SelectMigrations drv c limit = extern (drvSelectMigrations drv c limit) (C_SelectMigrations c limit)"

definition InsertMigration ::
  "'s Driver \<Rightarrow> Transaction \<Rightarrow> string \<Rightarrow> 's world \<Rightarrow> error option \<times> 's world" where
  "InsertMigration drv tx ver = extern (drvInsertMigration drv tx ver) (C_InsertMigration tx ver)"

definition DeleteMigration ::
  "'s Driver \<Rightarrow> Transaction \<Rightarrow> string \<Rightarrow> 's world \<Rightarrow> error option \<times> 's world" where
  "DeleteMigration drv tx ver = extern (drvDeleteMigration drv tx ver) (C_DeleteMigration tx ver)"

definition DriverDumpSchema ::
  "'s Driver \<Rightarrow> URL \<Rightarrow> sqlDB \<Rightarrow> 's world \<Rightarrow> (error + string) \<times> 's world" where
  "DriverDumpSchema drv u c = extern (drvDumpSchema drv u c) (C_DumpSchema c)"

definition ReadDir ::
  "'s Sys \<Rightarrow> string \<Rightarrow> 's world \<Rightarrow> (error + (string \<times> bool) list) \<times> 's world" where
  "ReadDir sys dir = extern (sysReadDir sys dir) (C_ReadDir dir)"

definition parseMigration ::
  "'s Sys \<Rightarrow> string \<Rightarrow> 's world \<Rightarrow> (error + Migration \<times> Migration) \<times> 's world" where
  "parseMigration sys path = extern (sysParseMigration sys path) (C_ParseMigration path)"

definition ensureDir :: "'s Sys \<Rightarrow> string \<Rightarrow> 's world \<Rightarrow> error option \<times> 's world" where
  "ensureDir sys dir = extern (sysEnsureDir sys dir) (C_EnsureDir dir)"

definition WriteFile ::
  "'s Sys \<Rightarrow> string \<Rightarrow> string \<Rightarrow> 's world \<Rightarrow> error option \<times> 's world" where
  "WriteFile sys path content = extern (sysWriteFile sys path content) (C_WriteFile path content)"

text \<open>
  Modelled from the spec: \<open>mustClose\<close> (utils.go is not among the sources). The spec
  says of it only that the connection is released, on every exit path; the model
  closes the connection and has no failing branch.
\<close>

definition mustClose :: "'s Sys \<Rightarrow> sqlDB \<Rightarrow> 's world \<Rightarrow> 's world" where
  "mustClose sys c = extern0 (sysClose sys c) (C_Close c)"

subsection \<open>Wait\<close>

text \<open>
  The retry loop of \<open>Wait\<close>, entered after a first failed probe. \<open>i\<close> is the loop
  counter, a \<open>time.Duration\<close>: the comparison is signed and the addition wraps. The
  loop may run forever; not returning is \<open>None\<close>.
\<close>

partial_function (option) waitLoop ::
  "'s Sys \<Rightarrow> 's Driver \<Rightarrow> DB \<Rightarrow> Duration \<Rightarrow> error \<Rightarrow> 's world \<Rightarrow>
   (error option \<times> 's world) option" where
  "waitLoop sys drv db i err w =
     (if i <s WaitTimeout db then
        (case Ping drv (DatabaseURL db) (Sleep sys (WaitInterval db) (Print ''.'' w)) of
           (None, w1) \<Rightarrow> Some (None, Print [nl] w1)
         | (Some err1, w1) \<Rightarrow> waitLoop sys drv db (i + WaitInterval db) err1 w1)
      else Some (Some (''unable to connect to database: '' @ err), Print [nl] w))"

declare waitLoop.simps [code]

definition Wait :: "'s Sys \<Rightarrow> DB \<Rightarrow> 's world \<Rightarrow> (error option \<times> 's world) option" where
  "Wait sys db w =
     (case GetDriver sys db of
        Inl err \<Rightarrow> Some (Some err, w)
      | Inr drv \<Rightarrow>
          (case Ping drv (DatabaseURL db) w of
             (None, w1) \<Rightarrow> Some (None, w1)
           | (Some err, w1) \<Rightarrow> waitLoop sys drv db 0 err (Print ''Waiting for database'' w1)))"

subsection \<open>Opening the database, dumping the schema\<close>

definition openDatabaseForMigration ::
  "'s Sys \<Rightarrow> DB \<Rightarrow> 's world \<Rightarrow> (error + 's Driver \<times> sqlDB) \<times> 's world" where
  "openDatabaseForMigration sys db w =
     (case GetDriver sys db of
        Inl err \<Rightarrow> (Inl err, w)
      | Inr drv \<Rightarrow>
          (case Open drv (DatabaseURL db) w of
             (Inl err, w1) \<Rightarrow> (Inl err, w1)
           | (Inr sqlDB, w1) \<Rightarrow>
               (case CreateMigrationsTable drv sqlDB w1 of
                  (Some err, w2) \<Rightarrow> (Inl err, mustClose sys sqlDB w2)
                | (None, w2) \<Rightarrow> (Inr (drv, sqlDB), w2))))"

text \<open>\<open>DumpSchema\<close> from the driver's dump on, with the connection open.\<close>

definition dumpSchemaBody ::
  "'s Sys \<Rightarrow> DB \<Rightarrow> 's Driver \<Rightarrow> sqlDB \<Rightarrow> 's world \<Rightarrow> error option \<times> 's world" where
  "dumpSchemaBody sys db drv sqlDB w =
     (case DriverDumpSchema drv (DatabaseURL db) sqlDB w of
        (Inl err, w1) \<Rightarrow> (Some err, w1)
      | (Inr schema, w1) \<Rightarrow>
          (case ensureDir sys (sysDir sys (SchemaFile db))
                  (Print (''Writing: '' @ SchemaFile db @ [nl]) w1) of
             (Some err, w2) \<Rightarrow> (Some err, w2)
           | (None, w2) \<Rightarrow> WriteFile sys (SchemaFile db) schema w2))"

text \<open>\<open>DumpSchema\<close> after the optional wait; the deferred \<open>mustClose\<close> runs last.\<close>

definition dumpSchemaOpen :: "'s Sys \<Rightarrow> DB \<Rightarrow> 's world \<Rightarrow> error option \<times> 's world" where
  "dumpSchemaOpen sys db w =
     (case openDatabaseForMigration sys db w of
        (Inl err, w1) \<Rightarrow> (Some err, w1)
      | (Inr (drv, sqlDB), w1) \<Rightarrow>
          (case dumpSchemaBody sys db drv sqlDB w1 of
             (r, w2) \<Rightarrow> (r, mustClose sys sqlDB w2)))"

definition DumpSchema :: "'s Sys \<Rightarrow> DB \<Rightarrow> 's world \<Rightarrow> (error option \<times> 's world) option" where
  "DumpSchema sys db w =
     (if WaitBefore db then
        (case Wait sys db w of
           None \<Rightarrow> None
         | Some (Some err, w1) \<Rightarrow> Some (Some err, w1)
         | Some (None, w1) \<Rightarrow> Some (dumpSchemaOpen sys db w1))
      else Some (dumpSchemaOpen sys db w))"

subsection \<open>executeScript\<close>

text \<open>The loop over the statements in emulated mode.\<close>

fun execStatements ::
  "'s Sys \<Rightarrow> Transaction \<Rightarrow> string list \<Rightarrow> 's world \<Rightarrow> error option \<times> 's world" where
  "execStatements sys tx [] w = (None, w)"
| "execStatements sys tx (statement # statements) w =
     (case Exec sys tx statement w of
        (Some err, w1) \<Rightarrow> (Some err, w1)
      | (None, w1) \<Rightarrow> execStatements sys tx statements w1)"

definition executeScript ::
  "'s Sys \<Rightarrow> Transaction \<Rightarrow> string \<Rightarrow> bool \<Rightarrow> 's world \<Rightarrow> error option \<times> 's world" where
  "executeScript sys tx script nativeEngine w =
     (if nativeEngine then
        Exec sys tx script (Print (''Executing script on native engine'' @ [nl]) w)
      else
        execStatements sys tx (parseStatements script)
          (Print (''Executing script on DBMate engine'' @ [nl]) w))"

subsection \<open>Finding migration files\<close>

definition findMigrationFiles ::
  "'s Sys \<Rightarrow> string \<Rightarrow> (string \<Rightarrow> bool) \<Rightarrow> 's world \<Rightarrow> (error + string list) \<times> 's world" where
  "findMigrationFiles sys dir re w =
     (case ReadDir sys dir w of
        (Inl err, w1) \<Rightarrow>
          (Inl (''could not find migrations directory '' @ [bquote] @ dir @ [bquote]), w1)
      | (Inr files, w1) \<Rightarrow>
          (Inr (sort [name. (name, isDir) \<leftarrow> files, \<not> isDir, re name]), w1))"

text \<open>
  A call either panics or returns. \<open>findMigrationFile\<close> panics on an empty version, and
  in \<open>regexp.MustCompile\<close> on a version that is not valid UTF-8. The message of the second
  panic is abridged: the library also quotes the pattern in it.
\<close>

datatype 'a outcome = Panic string | Returns 'a

definition isPanic :: "'a outcome \<Rightarrow> bool" where
  "isPanic r = (case r of Panic msg \<Rightarrow> True | Returns x \<Rightarrow> False)"

definition findMigrationFile ::
  "'s Sys \<Rightarrow> string \<Rightarrow> string \<Rightarrow> 's world \<Rightarrow> (error + string) outcome \<times> 's world" where
  "findMigrationFile sys dir ver w =
     (if ver = [] then (Panic ''migration version is required'', w)
      else if \<not> validUTF8 (versionPattern ver) then
        (Panic ''regexp: Compile: error parsing regexp: invalid UTF-8'', w)
      else
        (case findMigrationFiles sys dir (versionFileRegexp ver) w of
           (Inl err, w1) \<Rightarrow> (Returns (Inl err), w1)
         | (Inr files, w1) \<Rightarrow>
             (case files of
                [] \<Rightarrow>
                  (Returns (Inl (''can't find migration file: '' @ QuoteMeta ver @ ''*.sql'')), w1)
              | file # _ \<Rightarrow> (Returns (Inr file), w1))))"

subsection \<open>Migrate\<close>

text \<open>\<open>applied[ver]\<close>: the value stored under the key, \<open>false\<close> for a key that is absent.\<close>

definition isApplied :: "versions \<Rightarrow> string \<Rightarrow> bool" where
  "isApplied applied ver = (case map_of applied ver of None \<Rightarrow> False | Some b \<Rightarrow> b)"

text \<open>The closure \<open>execMigration\<close> of \<open>Migrate\<close>.\<close>

definition execMigrationUp ::
  "'s Sys \<Rightarrow> 's Driver \<Rightarrow> bool \<Rightarrow> Migration \<Rightarrow> string \<Rightarrow> Transaction \<Rightarrow> 's world \<Rightarrow>
   error option \<times> 's world" where
  "execMigrationUp sys drv useNative up ver tx w =
     (case executeScript sys tx (Contents up) useNative w of
        (Some err, w1) \<Rightarrow> (Some err, w1)
      | (None, w1) \<Rightarrow> InsertMigration drv tx ver w1)"

text \<open>The loop of \<open>Migrate\<close> over the files.\<close>

fun migrateFiles ::
  "'s Sys \<Rightarrow> DB \<Rightarrow> 's Driver \<Rightarrow> sqlDB \<Rightarrow> bool \<Rightarrow> versions \<Rightarrow> string list \<Rightarrow> 's world \<Rightarrow>
   error option \<times> 's world" where
  "migrateFiles sys db drv sqlDB useNative applied [] w = (None, w)"
| "migrateFiles sys db drv sqlDB useNative applied (filename # files) w =
     (if isApplied applied (migrationVersion filename) then
        migrateFiles sys db drv sqlDB useNative applied files w
      else
        (case parseMigration sys (sysJoin sys (MigrationsDir db) filename)
                (Print (''Applying: '' @ filename @ [nl]) w) of
           (Inl err, w1) \<Rightarrow> (Some err, w1)
         | (Inr (up, down), w1) \<Rightarrow>
             (case (if OptionsTransaction up then
                      doTransaction sys sqlDB
                        (execMigrationUp sys drv useNative up (migrationVersion filename)) w1
                    else
                      execMigrationUp sys drv useNative up (migrationVersion filename)
                        (OnDB sqlDB) w1) of
                (Some err, w2) \<Rightarrow> (Some err, w2)
              | (None, w2) \<Rightarrow> migrateFiles sys db drv sqlDB useNative applied files w2)))"

definition useNativeEngine :: "DB \<Rightarrow> bool" where
  "useNativeEngine db \<longleftrightarrow> NativeEngine db \<and> Scheme (DatabaseURL db) \<noteq> ''oracle''"

text \<open>\<open>Migrate\<close> with the connection open, up to the deferred \<open>mustClose\<close>.\<close>

definition migrateBody ::
  "'s Sys \<Rightarrow> DB \<Rightarrow> 's Driver \<Rightarrow> sqlDB \<Rightarrow> string list \<Rightarrow> 's world \<Rightarrow>
   (error option \<times> 's world) option" where
  "migrateBody sys db drv sqlDB files w =
     (case SelectMigrations drv sqlDB (- 1) w of
        (Inl err, w1) \<Rightarrow> Some (Some err, w1)
      | (Inr applied, w1) \<Rightarrow>
          (case migrateFiles sys db drv sqlDB (useNativeEngine db) applied files w1 of
             (Some err, w2) \<Rightarrow> Some (Some err, w2)
           | (None, w2) \<Rightarrow>
               if AutoDumpSchema db then
                 (case DumpSchema sys db w2 of
                    None \<Rightarrow> None
                  | Some (_, w3) \<Rightarrow> Some (None, w3))
               else Some (None, w2)))"

text \<open>\<open>Migrate\<close> after the optional wait.\<close>

definition migrateOpen ::
  "'s Sys \<Rightarrow> DB \<Rightarrow> string list \<Rightarrow> 's world \<Rightarrow> (error option \<times> 's world) option" where
  "migrateOpen sys db files w =
     (case openDatabaseForMigration sys db w of
        (Inl err, w1) \<Rightarrow> Some (Some err, w1)
      | (Inr (drv, sqlDB), w1) \<Rightarrow>
          (case migrateBody sys db drv sqlDB files w1 of
             None \<Rightarrow> None
           | Some (r, w2) \<Rightarrow> Some (r, mustClose sys sqlDB w2)))"

definition Migrate :: "'s Sys \<Rightarrow> DB \<Rightarrow> 's world \<Rightarrow> (error option \<times> 's world) option" where
  "Migrate sys db w =
     (case findMigrationFiles sys (MigrationsDir db) migrationFileRegexp w of
        (Inl err, w1) \<Rightarrow> Some (Some err, w1)
      | (Inr files, w1) \<Rightarrow>
          if files = [] then Some (Some ''no migration files found'', w1)
          else if WaitBefore db then
            (case Wait sys db w1 of
               None \<Rightarrow> None
             | Some (Some err, w2) \<Rightarrow> Some (Some err, w2)
             | Some (None, w2) \<Rightarrow> migrateOpen sys db files w2)
          else migrateOpen sys db files w1)"

subsection \<open>Rollback\<close>

text \<open>The closure \<open>execMigration\<close> of \<open>Rollback\<close>.\<close>

definition execMigrationDown ::
  "'s Sys \<Rightarrow> 's Driver \<Rightarrow> bool \<Rightarrow> Migration \<Rightarrow> string \<Rightarrow> Transaction \<Rightarrow> 's world \<Rightarrow>
   error option \<times> 's world" where
  "execMigrationDown sys drv useNative down latest tx w =
     (case executeScript sys tx (Contents down) useNative w of
        (Some err, w1) \<Rightarrow> (Some err, w1)
      | (None, w1) \<Rightarrow> DeleteMigration drv tx latest w1)"

text \<open>The loop \<open>for ver := range applied { latest = ver }\<close>, from \<open>latest = ""\<close>.\<close>

definition latestVersion :: "versions \<Rightarrow> string" where
  "latestVersion applied = foldl (\<lambda>latest (ver, _). ver) [] applied"

text \<open>
  \<open>Rollback\<close> with the connection open, up to the deferred \<open>mustClose\<close>. The version
  handed to \<open>findMigrationFile\<close> is not empty, so of its two panics only that of
  \<open>regexp.MustCompile\<close> can occur. A panic ends \<open>Rollback\<close>: it runs the deferred
  \<open>mustClose\<close> and does not return.
\<close>

definition rollbackBody ::
  "'s Sys \<Rightarrow> DB \<Rightarrow> 's Driver \<Rightarrow> sqlDB \<Rightarrow> 's world \<Rightarrow>
   (error option outcome \<times> 's world) option" where
  "rollbackBody sys db drv sqlDB w =
     (case SelectMigrations drv sqlDB 1 w of
        (Inl err, w1) \<Rightarrow> Some (Returns (Some err), w1)
      | (Inr applied, w1) \<Rightarrow>
          if latestVersion applied = [] then
            Some (Returns (Some ''can't rollback: no migrations have been applied''), w1)
          else
            (case findMigrationFile sys (MigrationsDir db) (latestVersion applied) w1 of
               (Panic msg, w2) \<Rightarrow> Some (Panic msg, w2)
             | (Returns (Inl err), w2) \<Rightarrow> Some (Returns (Some err), w2)
             | (Returns (Inr filename), w2) \<Rightarrow>
                 (case parseMigration sys (sysJoin sys (MigrationsDir db) filename)
                         (Print (''Rolling back: '' @ filename @ [nl]) w2) of
                    (Inl err, w3) \<Rightarrow> Some (Returns (Some err), w3)
                  | (Inr (up, down), w3) \<Rightarrow>
                      (case (if OptionsTransaction down then
                               doTransaction sys sqlDB
                                 (execMigrationDown sys drv (useNativeEngine db) down
                                    (latestVersion applied)) w3
                             else
                               execMigrationDown sys drv (useNativeEngine db) down
                                 (latestVersion applied) (OnDB sqlDB) w3) of
                         (Some err, w4) \<Rightarrow> Some (Returns (Some err), w4)
                       | (None, w4) \<Rightarrow>
                           if AutoDumpSchema db then
                             (case DumpSchema sys db w4 of
                                None \<Rightarrow> None
                              | Some (_, w5) \<Rightarrow> Some (Returns None, w5))
                           else Some (Returns None, w4)))))"

text \<open>\<open>Rollback\<close> after the optional wait.\<close>

definition rollbackOpen ::
  "'s Sys \<Rightarrow> DB \<Rightarrow> 's world \<Rightarrow> (error option outcome \<times> 's world) option" where
  "rollbackOpen sys db w =
     (case openDatabaseForMigration sys db w of
        (Inl err, w1) \<Rightarrow> Some (Returns (Some err), w1)
      | (Inr (drv, sqlDB), w1) \<Rightarrow>
          (case rollbackBody sys db drv sqlDB w1 of
             None \<Rightarrow> None
           | Some (r, w2) \<Rightarrow> Some (r, mustClose sys sqlDB w2)))"

definition Rollback ::
  "'s Sys \<Rightarrow> DB \<Rightarrow> 's world \<Rightarrow> (error option outcome \<times> 's world) option" where
  "Rollback sys db w =
     (if WaitBefore db then
        (case Wait sys db w of
           None \<Rightarrow> None
         | Some (Some err, w1) \<Rightarrow> Some (Returns (Some err), w1)
         | Some (None, w1) \<Rightarrow> rollbackOpen sys db w1)
      else rollbackOpen sys db w)"

subsection \<open>Status\<close>

record statusResult =
  filename :: string
  applied :: bool

definition checkMigrationsStatus ::
  "'s Sys \<Rightarrow> DB \<Rightarrow> 's world \<Rightarrow> (error + statusResult list) \<times> 's world" where
  "checkMigrationsStatus sys db w =
     (case findMigrationFiles sys (MigrationsDir db) migrationFileRegexp w of
        (Inl err, w1) \<Rightarrow> (Inl err, w1)
      | (Inr files, w1) \<Rightarrow>
          if files = [] then (Inl ''no migration files found'', w1)
          else
            (case openDatabaseForMigration sys db w1 of
               (Inl err, w2) \<Rightarrow> (Inl err, w2)
             | (Inr (drv, sqlDB), w2) \<Rightarrow>
                 (case SelectMigrations drv sqlDB (- 1) w2 of
                    (Inl err, w3) \<Rightarrow> (Inl err, mustClose sys sqlDB w3)
                  | (Inr versions, w3) \<Rightarrow>
                      (Inr (map (\<lambda>name. \<lparr>filename = name,
                                         applied = isApplied versions (migrationVersion name)\<rparr>)
                              files),
                       mustClose sys sqlDB w3))))"

text \<open>\<open>%d\<close> of a Go \<open>int\<close>.\<close>

function showNat :: "nat \<Rightarrow> string" where
  "showNat n =
     (if n < 10 then [char_of (48 + n)] else showNat (n div 10) @ [char_of (48 + n mod 10)])"
  by pat_completeness auto
termination
  by (relation "measure id") auto

declare showNat.simps [simp del]

definition showInt :: "int \<Rightarrow> string" where
  "showInt i = (if i < 0 then CHR ''-'' # showNat (nat (- i)) else showNat (nat i))"

text \<open>The loop of \<open>Status\<close> over the results; it counts the applied migrations.\<close>

fun statusLoop :: "bool \<Rightarrow> statusResult list \<Rightarrow> int \<Rightarrow> 's world \<Rightarrow> int \<times> 's world" where
  "statusLoop quiet [] totalApplied w = (totalApplied, w)"
| "statusLoop quiet (res # results) totalApplied w =
     (if applied res then
        statusLoop quiet results (totalApplied + 1)
          (if \<not> quiet then Print (''[X] '' @ filename res @ [nl]) w else w)
      else
        statusLoop quiet results totalApplied
          (if \<not> quiet then Print (''[ ] '' @ filename res @ [nl]) w else w))"

text \<open>\<open>Status\<close> returns \<open>(int, error)\<close>.\<close>

definition Status :: "'s Sys \<Rightarrow> DB \<Rightarrow> bool \<Rightarrow> 's world \<Rightarrow> (int \<times> error option) \<times> 's world" where
  "Status sys db quiet w =
     (case checkMigrationsStatus sys db w of
        (Inl err, w1) \<Rightarrow> ((- 1, Some err), w1)
      | (Inr results, w1) \<Rightarrow>
          (case statusLoop quiet results 0 w1 of
             (totalApplied, w2) \<Rightarrow>
               ((int (length results) - totalApplied, None),
                if \<not> quiet then
                  Print (''Pending: '' @ showInt (int (length results) - totalApplied) @ [nl])
                    (Print (''Applied: '' @ showInt totalApplied @ [nl]) (Print [nl] w2))
                else w2)))"

subsection \<open>A backend to run the engine on\<close>

text \<open>
  Modelled from the spec: the driver and the database behind it (driver.go and the
  per-backend files are not among the sources). The bookkeeping table is the list of
  the applied versions, the most recently applied first; \<open>InsertMigration\<close> adds a
  row and refuses a version that has one (the version is the primary key),
  \<open>DeleteMigration\<close> removes the row of a version, \<open>SelectMigrations\<close> returns every
  row, or the latest \<open>limit\<close> rows for a limit that is not negative. The schema is the
  list of the statements executed; the server refuses the statements in \<open>rejected\<close>. A
  transaction that is rolled back restores the schema and the table as they were at
  its start. The server refuses the first \<open>pingFailures\<close> probes.
\<close>

record backend =
  pingFailures :: nat
  dirs :: "(string \<times> (string \<times> bool) list) list"
  sources :: "(string \<times> Migration \<times> Migration) list"
  rejected :: "string list"
  executed :: "string list"
  rows :: "string list"
  saved :: "(string list \<times> string list) option"
  handles :: nat
  written :: "(string \<times> string) list"

definition simDriver :: "backend Driver" where
  "simDriver =
     \<lparr>drvPing = (\<lambda>u s.
        if pingFailures s = 0 then (None, s)
        else (Some ''connection refused'', s\<lparr>pingFailures := pingFailures s - 1\<rparr>)),
      drvOpen = (\<lambda>u s. (Inr (handles s), s\<lparr>handles := Suc (handles s)\<rparr>)),
      drvCreateMigrationsTable = (\<lambda>c s. (None, s)),
      drvSelectMigrations = (\<lambda>c limit s.
        (Inr (map (\<lambda>v. (v, True)) (if limit < 0 then rows s else take (nat limit) (rows s))), s)),
      drvInsertMigration = (\<lambda>tx v s.
        if v \<in> set (rows s) then (Some ''duplicate version'', s)
        else (None, s\<lparr>rows := v # rows s\<rparr>)),
      drvDeleteMigration = (\<lambda>tx v s. (None, s\<lparr>rows := removeAll v (rows s)\<rparr>)),
      drvDumpSchema = (\<lambda>u c s. (Inr (concat (executed s)), s))\<rparr>"

definition simSys :: "backend Sys" where
  "simSys =
     \<lparr>sysGetDriver = (\<lambda>scheme.
        if scheme \<in> set [''postgres'', ''mysql'', ''sqlite'', ''oracle''] then Inr simDriver
        else Inl (''unsupported driver: '' @ scheme)),
      sysBegin = (\<lambda>c s.
        (Inr (handles s),
         s\<lparr>handles := Suc (handles s), saved := Some (executed s, rows s)\<rparr>)),
      sysCommit = (\<lambda>tx s. (None, s\<lparr>saved := None\<rparr>)),
      sysRollback = (\<lambda>tx s.
        (None, case saved s of
                 None \<Rightarrow> s
               | Some (e, r) \<Rightarrow> s\<lparr>executed := e, rows := r, saved := None\<rparr>)),
      sysExec = (\<lambda>tx q s.
        if q \<in> set (rejected s) then (Some (''rejected: '' @ q), s)
        else (None, s\<lparr>executed := executed s @ [q]\<rparr>)),
      sysClose = (\<lambda>c s. s),
      sysReadDir = (\<lambda>dir s.
        case map_of (dirs s) dir of
          None \<Rightarrow> (Inl ''no such directory'', s)
        | Some es \<Rightarrow> (Inr es, s)),
      sysParseMigration = (\<lambda>path s.
        case map_of (sources s) path of
          None \<Rightarrow> (Inl ''no such file'', s)
        | Some ud \<Rightarrow> (Inr ud, s)),
      sysEnsureDir = (\<lambda>dir s. (None, s)),
      sysWriteFile = (\<lambda>path content s. (None, s\<lparr>written := (path, content) # written s\<rparr>)),
      sysSleep = (\<lambda>d s. s),
      sysJoin = (\<lambda>dir name. dir @ ''/'' @ name),
      sysDir = (\<lambda>path. rev (drop 1 (dropWhile (\<lambda>c. c \<noteq> slash) (rev path))))\<rparr>"

text \<open>A run starts with no call made and nothing printed.\<close>

definition start :: "'s \<Rightarrow> 's world" where
  "start s = \<lparr>ext = s, calls = [], out = []\<rparr>"

text \<open>A migration with an up and a down section, and one whose up section the server refuses.\<close>

definition usersUp :: Migration where
  "usersUp = \<lparr>Contents = ''create table users (id int);'', OptionsTransaction = True\<rparr>"

definition usersDown :: Migration where
  "usersDown = \<lparr>Contents = ''drop table users;'', OptionsTransaction = True\<rparr>"

definition brokenUp :: Migration where
  "brokenUp = \<lparr>Contents = ''create tabel;'', OptionsTransaction = True\<rparr>"

definition emptyBackend :: backend where
  "emptyBackend =
     \<lparr>pingFailures = 0, dirs = [], sources = [], rejected = [''create tabel;''],
      executed = [], rows = [], saved = None, handles = 0, written = []\<rparr>"

text \<open>A server that never answers a probe.\<close>

definition deadDriver :: "backend Driver" where
  "deadDriver = simDriver\<lparr>drvPing := (\<lambda>u s. (Some ''connection refused'', s))\<rparr>"

definition deadSys :: "backend Sys" where
  "deadSys = simSys\<lparr>sysGetDriver := (\<lambda>scheme. Inr deadDriver)\<rparr>"

text \<open>
  A configuration for a Postgres URL, with the flags, the interval and the timeout that
  \<open>New\<close> sets; the migrations directory and the schema file are \<open>db/migrations\<close> and
  \<open>db/schema.sql\<close> (\<open>New\<close> writes them with a leading \<open>./\<close>).
\<close>

definition simDB :: DB where
  "simDB = \<lparr>AutoDumpSchema = True,
            DatabaseURL = \<lparr>Scheme = ''postgres'', Opaque = ''//localhost/app''\<rparr>,
            MigrationsDir = ''db/migrations'', SchemaFile = ''db/schema.sql'',
            WaitBefore = False, WaitInterval = 1000000000, WaitTimeout = 60000000000,
            NativeEngine = True\<rparr>"

text \<open>
  The calls of the retry loop of \<open>Wait\<close>, given what the probes returned: a sleep of
  one interval before each probe. The probes of a run are the failed ones, followed by
  the one that succeeded if the run succeeded.
\<close>

definition retries :: "Duration \<Rightarrow> error option list \<Rightarrow> call list" where
  "retries iv ps = concat (map (\<lambda>p. [C_Sleep iv, C_Ping p]) ps)"

definition probes :: "error list \<Rightarrow> error option \<Rightarrow> error option list" where
  "probes errs r = map Some errs @ (case r of None \<Rightarrow> [None] | Some e \<Rightarrow> [])"

subsection \<open>Reading the status\<close>

text \<open>
  The names \<open>findMigrationFiles\<close> returns for a listing, the entry of \<open>Status\<close> for a
  file, its line in the report, and the files that are pending.
\<close>

definition matchingFiles :: "(string \<Rightarrow> bool) \<Rightarrow> (string \<times> bool) list \<Rightarrow> string list" where
  "matchingFiles re entries = sort [name. (name, isDir) \<leftarrow> entries, \<not> isDir, re name]"

definition statusOf :: "versions \<Rightarrow> string \<Rightarrow> statusResult" where
  "statusOf vs name = \<lparr>filename = name, applied = isApplied vs (migrationVersion name)\<rparr>"

definition statusLine :: "statusResult \<Rightarrow> string" where
  "statusLine res = (if applied res then ''[X] '' else ''[ ] '') @ filename res @ [nl]"

definition pendingFiles :: "versions \<Rightarrow> string list \<Rightarrow> string list" where
  "pendingFiles vs files = filter (\<lambda>name. \<not> isApplied vs (migrationVersion name)) files"

text \<open>
  A fixture: five migration files, listed out of order beside a file and a directory
  that are no migrations; the first two are applied. And a second one with the three
  pending files only.
\<close>

definition migA :: string where "migA = ''20200101000000_a.sql''"
definition migB :: string where "migB = ''20200102000000_b.sql''"
definition migC :: string where "migC = ''20200103000000_c.sql''"
definition migD :: string where "migD = ''20200104000000_d.sql''"
definition migE :: string where "migE = ''20200105000000_e.sql''"

definition fixture :: backend where
  "fixture = emptyBackend
     \<lparr>dirs := [(''db/migrations'',
                [(migC, False), (migA, False), (''README.md'', False), (migE, False),
                 (''archive'', True), (migB, False), (migD, False)])],
      sources := map (\<lambda>name. (''db/migrations/'' @ name, usersUp, usersDown))
                   [migA, migB, migC, migD, migE],
      rows := [''20200102000000'', ''20200101000000'']\<rparr>"

definition fixture3 :: backend where
  "fixture3 = fixture\<lparr>dirs := [(''db/migrations'', [(migE, False), (migC, False), (migD, False)])]\<rparr>"

subsection \<open>Records of calls\<close>

text \<open>
  The kinds of calls: probes of the server and sleeps; opening and closing a
  connection; creating the bookkeeping table; querying it; inserting and deleting its
  rows; dumping and writing the schema; transactions; statements; directory listings;
  parsing a migration file.
\<close>

datatype kind = Probe | Conn | Table | Query | Book | Dump | TxK | ExecK | ListK | ParseK

fun kindOf :: "call \<Rightarrow> kind" where
  "kindOf (C_Ping r) = Probe"
| "kindOf (C_Sleep d) = Probe"
| "kindOf (C_Open r) = Conn"
| "kindOf (C_Close c) = Conn"
| "kindOf (C_CreateMigrationsTable c r) = Table"
| "kindOf (C_SelectMigrations c limit r) = Query"
| "kindOf (C_InsertMigration tx v r) = Book"
| "kindOf (C_DeleteMigration tx v r) = Book"
| "kindOf (C_DumpSchema c r) = Dump"
| "kindOf (C_Begin c r) = TxK"
| "kindOf (C_Commit tx r) = TxK"
| "kindOf (C_Rollback tx r) = TxK"
| "kindOf (C_Exec tx q r) = ExecK"
| "kindOf (C_ReadDir dir r) = ListK"
| "kindOf (C_ParseMigration p r) = ParseK"
| "kindOf (C_EnsureDir dir r) = Dump"
| "kindOf (C_WriteFile p content r) = Dump"

definition kinds :: "call list \<Rightarrow> kind set" where
  "kinds t = kindOf ` set t"

text \<open>
  The paths parsed, the connections opened and the connections closed in a record of
  calls, in order.
\<close>

definition parsed :: "call list \<Rightarrow> string list" where
  "parsed t = concat (map (\<lambda>e. case e of C_ParseMigration p r \<Rightarrow> [p] | _ \<Rightarrow> []) t)"

definition opened :: "call list \<Rightarrow> sqlDB list" where
  "opened t = concat (map (\<lambda>e. case e of C_Open (Inr c) \<Rightarrow> [c] | _ \<Rightarrow> []) t)"

definition closed :: "call list \<Rightarrow> sqlDB list" where
  "closed t = concat (map (\<lambda>e. case e of C_Close c \<Rightarrow> [c] | _ \<Rightarrow> []) t)"

text \<open>
  The statements a script is executed as: the script itself in native mode, the
  statements \<open>parseStatements\<close> splits it into in emulated mode; and the calls that
  execute them without an error.
\<close>

definition scriptStatements :: "bool \<Rightarrow> string \<Rightarrow> string list" where
  "scriptStatements native script = (if native then [script] else parseStatements script)"

definition scriptCalls :: "bool \<Rightarrow> Transaction \<Rightarrow> string \<Rightarrow> call list" where
  "scriptCalls native tx script = map (\<lambda>q. C_Exec tx q None) (scriptStatements native script)"

text \<open>
  Every statement executed belongs, in the given mode, to a section of a migration
  file that was parsed; \<open>section\<close> selects the up or the down section.
\<close>

definition execsFollowMode :: "bool \<Rightarrow> (Migration \<times> Migration \<Rightarrow> Migration) \<Rightarrow> call list \<Rightarrow> bool" where
  "execsFollowMode native section t \<longleftrightarrow>
     (\<forall>tx q res. C_Exec tx q res \<in> set t \<longrightarrow>
        (\<exists>p ud. C_ParseMigration p (Inr ud) \<in> set t
           \<and> q \<in> set (scriptStatements native (Contents (section ud)))))"

text \<open>
  The calls that apply one migration file without an error: parse it, then execute its
  up script and insert its version, between \<open>Begin\<close> and \<open>Commit\<close> on the transaction
  if the up section asks for a transaction, directly on the connection otherwise.
\<close>

definition applyCalls ::
  "bool \<Rightarrow> sqlDB \<Rightarrow> (string \<Rightarrow> string) \<Rightarrow> string \<times> Migration \<times> Migration \<times> sqlTx \<Rightarrow> call list" where
  "applyCalls native c path = (\<lambda>(name, up, down, tx).
     C_ParseMigration (path name) (Inr (up, down)) #
     (if OptionsTransaction up then
        C_Begin c (Inr tx) # scriptCalls native (OnTx tx) (Contents up)
          @ [C_InsertMigration (OnTx tx) (migrationVersion name) None, C_Commit tx None]
      else
        scriptCalls native (OnDB c) (Contents up)
          @ [C_InsertMigration (OnDB c) (migrationVersion name) None]))"

text \<open>
  The calls of the loop of \<open>Migrate\<close> over the pending files \<open>pend\<close>: if it succeeds,
  the calls of applying each pending file, in order; if it fails, those of the files
  before the failing one, then calls that parse the failing file and no other.
\<close>

definition appliedInOrder ::
  "bool \<Rightarrow> sqlDB \<Rightarrow> (string \<Rightarrow> string) \<Rightarrow> string list \<Rightarrow> error option \<Rightarrow> call list \<Rightarrow> bool" where
  "appliedInOrder native c path pend r t \<longleftrightarrow>
     (r = None \<longrightarrow>
        (\<exists>infos. map fst infos = pend \<and> t = concat (map (applyCalls native c path) infos)))
     \<and> (r \<noteq> None \<longrightarrow>
          (\<exists>infos tf. length infos < length pend
             \<and> map fst infos = take (length infos) pend
             \<and> t = concat (map (applyCalls native c path) infos) @ tf
             \<and> parsed tf = [path (pend ! length infos)]))"

text \<open>What a call of the body of a migration, up or down, may be.\<close>

definition upEvent :: "bool \<Rightarrow> Migration \<Rightarrow> string \<Rightarrow> Transaction \<Rightarrow> call \<Rightarrow> bool" where
  "upEvent native up ver tx e \<longleftrightarrow>
     (\<exists>q res. e = C_Exec tx q res \<and> q \<in> set (scriptStatements native (Contents up)))
     \<or> (\<exists>res. e = C_InsertMigration tx ver res)"

definition downEvent :: "bool \<Rightarrow> Migration \<Rightarrow> string \<Rightarrow> Transaction \<Rightarrow> call \<Rightarrow> bool" where
  "downEvent native down latest tx e \<longleftrightarrow>
     (\<exists>q res. e = C_Exec tx q res \<and> q \<in> set (scriptStatements native (Contents down)))
     \<or> (\<exists>res. e = C_DeleteMigration tx latest res)"

text \<open>The body of the loop of \<open>Migrate\<close> for one pending file.\<close>

definition applyFile ::
  "'s Sys \<Rightarrow> DB \<Rightarrow> 's Driver \<Rightarrow> sqlDB \<Rightarrow> bool \<Rightarrow> string \<Rightarrow> 's world \<Rightarrow> error option \<times> 's world" where
  "applyFile sys db drv sqlDB useNative name w =
     (case parseMigration sys (sysJoin sys (MigrationsDir db) name)
             (Print (''Applying: '' @ name @ [nl]) w) of
        (Inl err, w1) \<Rightarrow> (Some err, w1)
      | (Inr (up, down), w1) \<Rightarrow>
          (if OptionsTransaction up then
             doTransaction sys sqlDB
               (execMigrationUp sys drv useNative up (migrationVersion name)) w1
           else
             execMigrationUp sys drv useNative up (migrationVersion name) (OnDB sqlDB) w1))"

text \<open>\<open>Rollback\<close> from \<open>findMigrationFile\<close> to the end of the transaction.\<close>

definition revertLatest ::
  "'s Sys \<Rightarrow> DB \<Rightarrow> 's Driver \<Rightarrow> sqlDB \<Rightarrow> string \<Rightarrow> 's world \<Rightarrow>
   error option outcome \<times> 's world" where
  "revertLatest sys db drv sqlDB latest w =
     (case findMigrationFile sys (MigrationsDir db) latest w of
        (Panic msg, w2) \<Rightarrow> (Panic msg, w2)
      | (Returns (Inl err), w2) \<Rightarrow> (Returns (Some err), w2)
      | (Returns (Inr name), w2) \<Rightarrow>
          (case parseMigration sys (sysJoin sys (MigrationsDir db) name)
                  (Print (''Rolling back: '' @ name @ [nl]) w2) of
             (Inl err, w3) \<Rightarrow> (Returns (Some err), w3)
           | (Inr (up, down), w3) \<Rightarrow>
               (case (if OptionsTransaction down then
                        doTransaction sys sqlDB
                          (execMigrationDown sys drv (useNativeEngine db) down latest) w3
                      else
                        execMigrationDown sys drv (useNativeEngine db) down latest
                          (OnDB sqlDB) w3) of
                  (r, w4) \<Rightarrow> (Returns r, w4))))"

text \<open>The calls of a rollback that succeeds, after the bookkeeping query.\<close>

definition rollbackCalls ::
  "bool \<Rightarrow> sqlDB \<Rightarrow> string \<Rightarrow> (string \<Rightarrow> string) \<Rightarrow> string \<Rightarrow> (string \<times> bool) list \<Rightarrow>
   Migration \<Rightarrow> Migration \<Rightarrow> sqlTx \<Rightarrow> call list" where
  "rollbackCalls native c dir path latest entries up down tx =
     [C_ReadDir dir (Inr entries),
      C_ParseMigration (path (hd (matchingFiles (versionFileRegexp latest) entries))) (Inr (up, down))]
     @ (if OptionsTransaction down then
          C_Begin c (Inr tx) # scriptCalls native (OnTx tx) (Contents down)
            @ [C_DeleteMigration (OnTx tx) latest None, C_Commit tx None]
        else
          scriptCalls native (OnDB c) (Contents down) @ [C_DeleteMigration (OnDB c) latest None])"

text \<open>
  What \<open>Rollback\<close> does for the version \<open>latest\<close>: it panics, before any call, exactly
  when the pattern of that version is not valid UTF-8; it deletes no other version and
  inserts none, it parses only the first file, in sorted order, whose name the pattern of
  that version matches, and if it succeeds its calls are those of \<open>rollbackCalls\<close>.
\<close>

definition rolledBack ::
  "bool \<Rightarrow> sqlDB \<Rightarrow> string \<Rightarrow> (string \<Rightarrow> string) \<Rightarrow> string \<Rightarrow> error option outcome \<Rightarrow>
   call list \<Rightarrow> bool" where
  "rolledBack native c dir path latest r t \<longleftrightarrow>
     (isPanic r \<longleftrightarrow> \<not> validUTF8 (versionPattern latest))
     \<and> (isPanic r \<longrightarrow> t = [])
     \<and> (\<forall>tx v res. C_DeleteMigration tx v res \<in> set t \<longrightarrow> v = latest)
     \<and> (\<forall>tx v res. C_InsertMigration tx v res \<notin> set t)
     \<and> (\<forall>p pr. C_ParseMigration p pr \<in> set t \<longrightarrow>
          (\<exists>entries. C_ReadDir dir (Inr entries) \<in> set t
             \<and> matchingFiles (versionFileRegexp latest) entries \<noteq> []
             \<and> p = path (hd (matchingFiles (versionFileRegexp latest) entries))))
     \<and> (r = Returns None \<longrightarrow>
          (\<exists>entries up down tx. matchingFiles (versionFileRegexp latest) entries \<noteq> []
             \<and> t = rollbackCalls native c dir path latest entries up down tx))"

text \<open>
  What follows a bookkeeping query of \<open>Rollback\<close> that returned the versions \<open>vs\<close>:
  with no version, nothing but closing the connection, and the error; with a latest
  version, its rollback, and after a panic nothing but closing the connection.
\<close>

definition afterQuery ::
  "'s Sys \<Rightarrow> DB \<Rightarrow> sqlDB \<Rightarrow> versions \<Rightarrow> error option outcome \<Rightarrow> call list \<Rightarrow> call list \<Rightarrow>
   bool" where
  "afterQuery sys db c vs r tm td \<longleftrightarrow>
     (latestVersion vs = [] \<longrightarrow>
        tm = [] \<and> td = [C_Close c]
        \<and> r = Returns (Some ''can't rollback: no migrations have been applied''))
     \<and> (latestVersion vs \<noteq> [] \<longrightarrow>
          rolledBack (useNativeEngine db) c (MigrationsDir db)
            (sysJoin sys (MigrationsDir db)) (latestVersion vs) r tm
          \<and> (isPanic r \<longrightarrow> td = [C_Close c]))"

text \<open>The fixture with all five migrations applied.\<close>

definition fixtureApplied :: backend where
  "fixtureApplied = fixture\<lparr>rows := [''20200105000000'', ''20200104000000'', ''20200103000000'',
                                       ''20200102000000'', ''20200101000000'']\<rparr>"

text \<open>
  A configuration for an Oracle URL, with \<open>NativeEngine\<close> set as \<open>New\<close> sets it, and a
  fixture of one migration whose sections hold two statements each.
\<close>

definition oracleDB :: DB where
  "oracleDB = simDB\<lparr>DatabaseURL := \<lparr>Scheme = ''oracle'', Opaque = ''//localhost:1521/app''\<rparr>\<rparr>"

definition tablesUp :: Migration where
  "tablesUp = \<lparr>Contents = ''create table a (id int); create table b (id int);'',
               OptionsTransaction = True\<rparr>"

definition tablesDown :: Migration where
  "tablesDown = \<lparr>Contents = ''drop table b; drop table a;'', OptionsTransaction = False\<rparr>"

definition fixtureTables :: backend where
  "fixtureTables = emptyBackend
     \<lparr>dirs := [(''db/migrations'', [(migA, False)])],
      sources := [(''db/migrations/'' @ migA, tablesUp, tablesDown)]\<rparr>"

text \<open>
  The result, the record of calls and the final state of the environment of a run (the record of
  calls of a run that does not return is empty).
\<close>

definition returned :: "('a \<times> 's world) option \<Rightarrow> 'a option" where
  "returned res = map_option fst res"

definition callsOf :: "('a \<times> 's world) option \<Rightarrow> call list" where
  "callsOf res = (case res of None \<Rightarrow> [] | Some (r, w) \<Rightarrow> calls w)"

definition backendOf :: "('a \<times> 's world) option \<Rightarrow> 's option" where
  "backendOf res = map_option (\<lambda>(r, w). ext w) res"

text \<open>
  A fixture whose two migrations have versions of different lengths, \<open>1\<close> and \<open>10\<close>.
\<close>

definition fixtureWidths :: backend where
  "fixtureWidths = emptyBackend
     \<lparr>dirs := [(''db/migrations'', [(''1_a.sql'', False), (''10_b.sql'', False)])],
      sources := [(''db/migrations/1_a.sql'', usersUp, usersDown),
                  (''db/migrations/10_b.sql'', tablesUp, tablesDown)]\<rparr>"

text \<open>The calls of a record that open or close a connection, in order.\<close>

definition connections :: "call list \<Rightarrow> call list" where
  "connections t = filter (\<lambda>e. kindOf e = Conn) t"

text \<open>
  A fixture in which the name of a pending file starts with the version of the applied one:
  version \<open>100\<close> is applied, \<open>1000_b.sql\<close> is pending. And one whose only applied version
  is the single byte \<open>0xFF\<close>, which is not valid UTF-8.
\<close>

definition fixturePrefix :: backend where
  "fixturePrefix = emptyBackend
     \<lparr>dirs := [(''db/migrations'', [(''100_a.sql'', False), (''1000_b.sql'', False)])],
      sources := [(''db/migrations/100_a.sql'', usersUp, usersDown),
                  (''db/migrations/1000_b.sql'', tablesUp, tablesDown)],
      rows := [''100'']\<rparr>"

definition fixtureInvalid :: backend where
  "fixtureInvalid = fixture\<lparr>rows := [[CHR 0xFF]]\<rparr>"

text \<open>
  Two states of the backend with the same directories, migration files and refused
  statements, the second with no more refused probes left than the first.
\<close>

definition sameSetting :: "backend \<Rightarrow> backend \<Rightarrow> bool" where
  "sameSetting s s' \<longleftrightarrow>
     dirs s' = dirs s \<and> sources s' = sources s \<and> rejected s' = rejected s
     \<and> pingFailures s' \<le> pingFailures s"

text \<open>
  A stretch of a run on the backend that applies and reverts nothing: the setting, the
  bookkeeping rows and the executed statements are as before, and the calls made are
  listings, probes, openings and closings of connections, \<open>CreateMigrationsTable\<close>,
  bookkeeping queries and schema dumps only.
\<close>

definition idle :: "backend world \<Rightarrow> backend world \<Rightarrow> bool" where
  "idle w w' \<longleftrightarrow>
     sameSetting (ext w) (ext w') \<and> rows (ext w') = rows (ext w)
     \<and> executed (ext w') = executed (ext w)
     \<and> calls w' = calls w @ since w w'
     \<and> kinds (since w w') \<subseteq> {ListK, Probe, Conn, Table, Query, Dump}"

text \<open>
  The files that are pending in a state of the backend: those of the migrations directory
  that match the file pattern and whose version has no bookkeeping row, in sorted order.
\<close>

definition pendingIn :: "DB \<Rightarrow> backend \<Rightarrow> string list" where
  "pendingIn db s =
     (case map_of (dirs s) (MigrationsDir db) of
        None \<Rightarrow> []
      | Some entries \<Rightarrow>
          pendingFiles (map (\<lambda>v. (v, True)) (rows s)) (matchingFiles migrationFileRegexp entries))"

text \<open>One run after another, the second in the state the first has left.\<close>

definition andThen ::
  "('a \<times> 's world) option \<Rightarrow> ('s world \<Rightarrow> ('b \<times> 's world) option) \<Rightarrow> ('b \<times> 's world) option" where
  "andThen res next_run = (case res of None \<Rightarrow> None | Some (r, w) \<Rightarrow> next_run w)"

text \<open>The fixture with four migrations applied and the fifth pending.\<close>

definition fixtureOnePending :: backend where
  "fixtureOnePending = fixture\<lparr>rows := [''20200104000000'', ''20200103000000'',
                                          ''20200102000000'', ''20200101000000'']\<rparr>"

section \<open>Properties\<close>

subsection \<open>External calls only extend the record of calls\<close>

lemma extern_calls:
  "extern f ev w = (r, w') \<Longrightarrow> calls w' = calls w @ [ev r] \<and> out w' = out w"
  by (auto simp: extern_def split: prod.splits)

lemma extern_result:
  "extern f ev w = (r, w') \<Longrightarrow> r = fst (f (ext w)) \<and> ext w' = snd (f (ext w))"
  by (auto simp: extern_def split: prod.splits)

lemma since_append [simp]: "calls w' = calls w @ t \<Longrightarrow> since w w' = t"
  by (simp add: since_def)

subsection \<open>C4: commit if and only if the body succeeds\<close>

text \<open>
  C4. Once the transaction has begun, \<open>doTransaction\<close> runs the body inside it and then
  makes exactly one more call: \<open>Commit\<close> if the body returned no error, \<open>Rollback\<close> if
  it returned one. After a successful body the result is the result of the commit.
  After a failed body the result is the error of the rollback if the rollback failed,
  and the error of the body otherwise.
\<close>

theorem doTransaction_commit_iff_body_succeeds:
  assumes "Begin sys db w = (Inr tx, w1)"
    and "body (OnTx tx) w1 = (rb, w2)"
    and "doTransaction sys db body w = (r, w')"
  shows "(rb = None \<longrightarrow>
            since w2 w' = [C_Commit tx r] \<and> (r, w') = Commit sys tx w2)
       \<and> (\<forall>err. rb = Some err \<longrightarrow>
            (\<exists>rr. since w2 w' = [C_Rollback tx rr]
                 \<and> (rr, w') = TxRollback sys tx w2
                 \<and> r = Some (case rr of None \<Rightarrow> err | Some err1 \<Rightarrow> err1)))"
proof (cases rb)
  case None
  with assms have c: "Commit sys tx w2 = (r, w')"
    by (simp add: doTransaction_def)
  then have "calls w' = calls w2 @ [C_Commit tx r]"
    unfolding Commit_def by (rule extern_calls [THEN conjunct1])
  with None c show ?thesis by simp
next
  case (Some err)
  obtain rr w3 where rbk: "TxRollback sys tx w2 = (rr, w3)"
    by (cases "TxRollback sys tx w2")
  with assms Some have res: "w' = w3" "r = Some (case rr of None \<Rightarrow> err | Some err1 \<Rightarrow> err1)"
    by (auto simp: doTransaction_def split: option.splits)
  from rbk have "calls w3 = calls w2 @ [C_Rollback tx rr]"
    unfolding TxRollback_def by (rule extern_calls [THEN conjunct1])
  with Some rbk res show ?thesis by simp
qed

theorem doTransaction_commit_iff_body_succeeds_witness:
  "since (snd (execMigrationUp simSys simDriver True usersUp ''1'' (OnTx 0)
                 (snd (Begin simSys 0 (start emptyBackend)))))
         (snd (doTransaction simSys 0 (execMigrationUp simSys simDriver True usersUp ''1'')
                 (start emptyBackend)))
     = [C_Commit 0 None]
   \<and> fst (doTransaction simSys 0 (execMigrationUp simSys simDriver True brokenUp ''1'')
            (start emptyBackend))
     = Some ''rejected: create tabel;''"
proof -
  let ?w = "start emptyBackend"
  let ?up = "execMigrationUp simSys simDriver True usersUp ''1''"
  let ?bad = "execMigrationUp simSys simDriver True brokenUp ''1''"
  have b: "Begin simSys 0 ?w = (Inr 0, snd (Begin simSys 0 ?w))"
    by (simp add: Begin_def extern_def simSys_def start_def emptyBackend_def)
  have u: "?up (OnTx 0) (snd (Begin simSys 0 ?w))
           = (None, snd (?up (OnTx 0) (snd (Begin simSys 0 ?w))))"
    by (simp add: Begin_def extern_def simSys_def simDriver_def start_def emptyBackend_def
        execMigrationUp_def executeScript_def Exec_def Print_def InsertMigration_def usersUp_def)
  have f: "?bad (OnTx 0) (snd (Begin simSys 0 ?w))
           = (Some ''rejected: create tabel;'', snd (?bad (OnTx 0) (snd (Begin simSys 0 ?w))))"
    by (simp add: Begin_def extern_def simSys_def simDriver_def start_def emptyBackend_def
        execMigrationUp_def executeScript_def Exec_def Print_def InsertMigration_def brokenUp_def)
  have r: "fst (TxRollback simSys 0 (snd (?bad (OnTx 0) (snd (Begin simSys 0 ?w))))) = None"
    by (simp add: TxRollback_def extern_def simSys_def split: prod.splits)
  have c: "fst (Commit simSys 0 (snd (?up (OnTx 0) (snd (Begin simSys 0 ?w))))) = None"
    by (simp add: Commit_def extern_def simSys_def split: prod.splits)
  have du: "doTransaction simSys 0 ?up ?w
            = (fst (doTransaction simSys 0 ?up ?w), snd (doTransaction simSys 0 ?up ?w))"
    by simp
  have df: "doTransaction simSys 0 ?bad ?w
            = (fst (doTransaction simSys 0 ?bad ?w), snd (doTransaction simSys 0 ?bad ?w))"
    by simp
  from doTransaction_commit_iff_body_succeeds [OF b u du] c
  have 1: "since (snd (?up (OnTx 0) (snd (Begin simSys 0 ?w)))) (snd (doTransaction simSys 0 ?up ?w))
           = [C_Commit 0 None]"
    by (metis fst_conv)
  from doTransaction_commit_iff_body_succeeds [OF b f df] r
  have 2: "fst (doTransaction simSys 0 ?bad ?w) = Some ''rejected: create tabel;''"
    by (metis fst_conv option.simps(4))
  from 1 2 show ?thesis by simp
qed

subsection \<open>C3: the statement splitter\<close>

lemma fragments_nonempty: "fragments cs \<noteq> []"
  by (induction cs) (auto split: list.splits)

lemma Scan_plain:
  "c \<noteq> cr \<Longrightarrow> c \<noteq> dquote \<Longrightarrow> c \<noteq> bquote \<Longrightarrow> c \<noteq> slash \<Longrightarrow> Scan (c # r) = (of_char c, [c], r)"
  by simp

lemma of_char_not_EOF: "(of_char c :: int) \<noteq> tokEOF"
proof -
  have "(of_char c :: int) = int (of_char c)" by (simp add: of_nat_of_char)
  then show ?thesis by (simp add: tokEOF_def)
qed

lemma of_char_endOfStatement: "(of_char c :: int) = endOfStatement \<longleftrightarrow> c = CHR '';''"
  unfolding endOfStatement_def by (rule of_char_eq_iff)

lemma scanLoop_plain:
  "cr \<notin> set cs \<Longrightarrow> dquote \<notin> set cs \<Longrightarrow> bquote \<notin> set cs \<Longrightarrow> slash \<notin> set cs \<Longrightarrow>
   scanLoop cs st sts
   = sts @ filter (\<lambda>s. \<not> blank s) ((st @ hd (fragments cs)) # tl (fragments cs))"
proof (induction cs arbitrary: st sts)
  case Nil
  show ?case by (simp add: scanLoop.simps [of "[]"])
next
  case (Cons c cs)
  from Cons.prems have "c \<noteq> cr" "c \<noteq> dquote" "c \<noteq> bquote" "c \<noteq> slash"
    by auto
  then have sc: "Scan (c # cs) = (of_char c, [c], cs)" by (rule Scan_plain)
  from Cons.prems have p: "cr \<notin> set cs" "dquote \<notin> set cs" "bquote \<notin> set cs" "slash \<notin> set cs"
    by auto
  show ?case
  proof (cases "c = CHR '';''")
    case True
    with sc have "scanLoop (c # cs) st sts
      = scanLoop cs [] (if \<not> blank st then sts @ [st] else sts)"
      by (subst scanLoop.simps) (simp add: endOfStatement_def tokEOF_def)
    also have "\<dots> = (if \<not> blank st then sts @ [st] else sts)
         @ filter (\<lambda>s. \<not> blank s) (hd (fragments cs) # tl (fragments cs))"
      using Cons.IH [OF p, of "[]"] by simp
    finally show ?thesis using True fragments_nonempty [of cs] by simp
  next
    case False
    with sc have "scanLoop (c # cs) st sts = scanLoop cs (st @ [c]) sts"
      by (subst scanLoop.simps) (simp add: of_char_not_EOF of_char_endOfStatement)
    also have "\<dots> = sts @ filter (\<lambda>s. \<not> blank s) (((st @ [c]) @ hd (fragments cs)) # tl (fragments cs))"
      by (rule Cons.IH [OF p])
    finally show ?thesis using False fragments_nonempty [of cs]
      by (auto split: list.splits)
  qed
qed

lemma splitStatements_example:
  "splitStatements ''select 1; select 2;;  '' = [''select 1'', '' select 2'']"
  by (simp add: splitStatements_def blank.simps dropSpace_def)

text \<open>
  C3, as amended. On a script with no carriage return, double quote, backquote or
  slash, and no byte-order mark at its start, \<open>parseStatements\<close> returns what the rule
  of the specification returns: the fragments between the semicolons, each copied as
  it stands, without the blank ones.
\<close>

theorem parseStatements_plain:
  assumes "plain script"
  shows "parseStatements script = splitStatements script"
proof -
  from assms have "skipBOM script = script" by (simp add: plain_def skipBOM_def)
  moreover from assms have "scanLoop script [] []
     = filter (\<lambda>s. \<not> blank s) (hd (fragments script) # tl (fragments script))"
    using scanLoop_plain [of script "[]" "[]"] by (simp add: plain_def)
  ultimately show ?thesis
    using fragments_nonempty [of script] by (simp add: parseStatements_def splitStatements_def)
qed

theorem parseStatements_plain_witness:
  "plain ''select 1; select 2;;  ''
   \<and> parseStatements ''select 1; select 2;;  '' = [''select 1'', '' select 2'']"
proof -
  have p: "plain ''select 1; select 2;;  ''" by (simp add: plain_def)
  from parseStatements_plain [OF p] splitStatements_example p show ?thesis by simp
qed

text \<open>
  The claim as stated fails: a semicolon inside double quotes does not end the
  statement, and a carriage return between tokens is not copied.
\<close>

theorem parseStatements_counterexample:
  "parseStatements (''select '' @ [dquote] @ ''a;b'' @ [dquote])
     = [''select '' @ [dquote] @ ''a;b'' @ [dquote]]
   \<and> splitStatements (''select '' @ [dquote] @ ''a;b'' @ [dquote])
     = [''select '' @ [dquote] @ ''a'', ''b'' @ [dquote]]
   \<and> parseStatements (''a'' @ [cr] @ ''b'') = [''ab'']
   \<and> splitStatements (''a'' @ [cr] @ ''b'') = [''a'' @ [cr] @ ''b'']"
  by (simp add: parseStatements_def skipBOM_def scanLoop.simps tokEOF_def endOfStatement_def
      tokString_def splitStatements_def blank.simps dropSpace_def)

subsection \<open>C8: Wait\<close>

lemma sint_add_no_wrap:
  fixes i iv T :: "64 word"
  assumes "i <s T" "0 <s iv" "sint T + sint iv \<le> 2 ^ 63"
  shows "sint (i + iv) = sint i + sint iv"
proof -
  from assms have a: "sint i < sint T" "0 < sint iv"
    by (simp_all add: word_sless_alt)
  have "- (2 ^ 63) \<le> sint i" using sint_ge [of i] by simp
  with a assms(3) have "- (2 ^ 63) \<le> sint i + sint iv" "sint i + sint iv < 2 ^ 63"
    by linarith+
  then show ?thesis
    by (simp add: sint_word_add signed_take_bit_int_eq_self)
qed

lemma Ping_calls: "Ping drv u w = (p, w1) \<Longrightarrow> calls w1 = calls w @ [C_Ping p]"
  unfolding Ping_def by (rule extern_calls [THEN conjunct1])

lemma Sleep_calls [simp]: "calls (Sleep sys d w) = calls w @ [C_Sleep d]"
  by (simp add: Sleep_def extern0_def)

lemma Print_calls [simp]: "calls (Print s w) = calls w"
  by (simp add: Print_def)

lemma waitLoop_terminates:
  assumes iv: "0 <s WaitInterval db"
    and nowrap: "sint (WaitTimeout db) + sint (WaitInterval db) \<le> 2 ^ 63"
  shows "\<exists>r w' errs. waitLoop sys drv db i err w = Some (r, w')
           \<and> calls w' = calls w @ retries (WaitInterval db) (probes errs r)
           \<and> (probes errs r \<noteq> [] \<longrightarrow>
                sint i + int (length (probes errs r) - 1) * sint (WaitInterval db)
                  < sint (WaitTimeout db))
           \<and> (\<forall>e. r = Some e \<longrightarrow>
                e = ''unable to connect to database: '' @ last (err # errs)
                \<and> sint (WaitTimeout db) \<le> sint i + int (length errs) * sint (WaitInterval db))"
proof (induction "nat (sint (WaitTimeout db) - sint i)" arbitrary: i err w rule: less_induct)
  case less
  show ?case
  proof (cases "i <s WaitTimeout db")
    case False
    then have "waitLoop sys drv db i err w
        = Some (Some (''unable to connect to database: '' @ err), Print [nl] w)"
      by (subst waitLoop.simps) simp
    moreover from False have "sint (WaitTimeout db) \<le> sint i" by (simp add: word_sless_alt)
    ultimately show ?thesis
      by (intro exI [of _ "Some (''unable to connect to database: '' @ err)"]
          exI [of _ "Print [nl] w"] exI [of _ "[]"])
        (simp add: probes_def retries_def)
  next
    case True
    let ?w0 = "Sleep sys (WaitInterval db) (Print ''.'' w)"
    obtain p w1 where pg: "Ping drv (DatabaseURL db) ?w0 = (p, w1)"
      by (cases "Ping drv (DatabaseURL db) ?w0")
    from Ping_calls [OF pg] have c1: "calls w1 = calls w @ [C_Sleep (WaitInterval db), C_Ping p]"
      by simp
    from True have lt: "sint i < sint (WaitTimeout db)" by (simp add: word_sless_alt)
    show ?thesis
    proof (cases p)
      case None
      with True pg have "waitLoop sys drv db i err w = Some (None, Print [nl] w1)"
        by (subst waitLoop.simps) simp
      with c1 None lt show ?thesis
        by (intro exI [of _ None] exI [of _ "Print [nl] w1"] exI [of _ "[]"])
          (simp add: probes_def retries_def)
    next
      case (Some e1)
      with True pg have unf: "waitLoop sys drv db i err w
          = waitLoop sys drv db (i + WaitInterval db) e1 w1"
        by (subst waitLoop.simps) simp
      have s: "sint (i + WaitInterval db) = sint i + sint (WaitInterval db)"
        by (rule sint_add_no_wrap [OF True iv nowrap])
      from iv have ivp: "0 < sint (WaitInterval db)" by (simp add: word_sless_alt)
      with s lt have "nat (sint (WaitTimeout db) - sint (i + WaitInterval db))
          < nat (sint (WaitTimeout db) - sint i)"
        by simp
      from less [OF this, of e1 w1] obtain r w' errs where
        run: "waitLoop sys drv db (i + WaitInterval db) e1 w1 = Some (r, w')"
        and cs: "calls w' = calls w1 @ retries (WaitInterval db) (probes errs r)"
        and within: "probes errs r \<noteq> [] \<longrightarrow>
                sint (i + WaitInterval db)
                  + int (length (probes errs r) - 1) * sint (WaitInterval db)
                  < sint (WaitTimeout db)"
        and fail: "\<forall>e. r = Some e \<longrightarrow>
                e = ''unable to connect to database: '' @ last (e1 # errs)
                \<and> sint (WaitTimeout db)
                    \<le> sint (i + WaitInterval db) + int (length errs) * sint (WaitInterval db)"
        by blast
      have pr: "probes (e1 # errs) r = Some e1 # probes errs r" by (simp add: probes_def)
      have 1: "calls w' = calls w @ retries (WaitInterval db) (probes (e1 # errs) r)"
        using cs c1 Some by (simp add: pr retries_def)
      have 2: "sint i + int (length (probes (e1 # errs) r) - 1) * sint (WaitInterval db)
                  < sint (WaitTimeout db)"
      proof (cases "probes errs r = []")
        case True
        with lt show ?thesis by (simp add: pr)
      next
        case False
        then obtain n where n: "length (probes errs r) = Suc n"
          by (cases "probes errs r") simp_all
        have "int (Suc n) * sint (WaitInterval db)
              = sint (WaitInterval db) + int n * sint (WaitInterval db)"
          by (simp add: algebra_simps)
        with within False s n show ?thesis by (simp add: pr)
      qed
      have "int (Suc (length errs)) * sint (WaitInterval db)
              = sint (WaitInterval db) + int (length errs) * sint (WaitInterval db)"
        by (simp add: algebra_simps)
      with fail s have 3: "\<forall>e. r = Some e \<longrightarrow>
                e = ''unable to connect to database: '' @ last (err # e1 # errs)
                \<and> sint (WaitTimeout db)
                    \<le> sint i + int (length (e1 # errs)) * sint (WaitInterval db)"
        by (simp add: add.assoc)
      from unf run 1 2 3 show ?thesis
        by (intro exI [of _ r] exI [of _ w'] exI [of _ "e1 # errs"]) simp
    qed
  qed
qed


lemma Wait_terminates_positive_interval:
  assumes iv: "0 <s WaitInterval db"
    and nowrap: "sint (WaitTimeout db) + sint (WaitInterval db) \<le> 2 ^ 63"
  shows "(\<exists>res. Wait sys db w = Some res)
       \<and> (\<forall>drv. GetDriver sys db = Inr drv \<longrightarrow>
            (\<exists>r w' errs. Wait sys db w = Some (r, w')
               \<and> probes errs r \<noteq> []
               \<and> since w w' = C_Ping (hd (probes errs r))
                                # retries (WaitInterval db) (tl (probes errs r))
               \<and> (2 \<le> length (probes errs r) \<longrightarrow>
                    int (length (probes errs r) - 2) * sint (WaitInterval db)
                      < sint (WaitTimeout db))
               \<and> (\<forall>e. r = Some e \<longrightarrow>
                    errs \<noteq> []
                    \<and> e = ''unable to connect to database: '' @ last errs
                    \<and> sint (WaitTimeout db)
                        \<le> int (length errs - 1) * sint (WaitInterval db))))"
proof (cases "GetDriver sys db")
  case (Inl err)
  then show ?thesis by (simp add: Wait_def)
next
  case (Inr drv)
  obtain p w1 where pg: "Ping drv (DatabaseURL db) w = (p, w1)"
    by (cases "Ping drv (DatabaseURL db) w")
  from Ping_calls [OF pg] have c1: "calls w1 = calls w @ [C_Ping p]" .
  have "\<exists>r w' errs. Wait sys db w = Some (r, w')
               \<and> probes errs r \<noteq> []
               \<and> since w w' = C_Ping (hd (probes errs r))
                                # retries (WaitInterval db) (tl (probes errs r))
               \<and> (2 \<le> length (probes errs r) \<longrightarrow>
                    int (length (probes errs r) - 2) * sint (WaitInterval db)
                      < sint (WaitTimeout db))
               \<and> (\<forall>e. r = Some e \<longrightarrow>
                    errs \<noteq> []
                    \<and> e = ''unable to connect to database: '' @ last errs
                    \<and> sint (WaitTimeout db)
                        \<le> int (length errs - 1) * sint (WaitInterval db))"
  proof (cases p)
    case None
    with Inr pg have "Wait sys db w = Some (None, w1)" by (simp add: Wait_def)
    with c1 None show ?thesis
      by (intro exI [of _ None] exI [of _ w1] exI [of _ "[]"])
        (simp add: probes_def retries_def)
  next
    case (Some e0)
    let ?w2 = "Print ''Waiting for database'' w1"
    from Some Inr pg have unf: "Wait sys db w = waitLoop sys drv db 0 e0 ?w2"
      by (simp add: Wait_def)
    from waitLoop_terminates [OF iv nowrap, of sys drv 0 e0 ?w2] obtain r w' errs where
      run: "waitLoop sys drv db 0 e0 ?w2 = Some (r, w')"
      and cs: "calls w' = calls ?w2 @ retries (WaitInterval db) (probes errs r)"
      and within: "probes errs r \<noteq> [] \<longrightarrow>
                sint (0 :: 64 word) + int (length (probes errs r) - 1) * sint (WaitInterval db)
                  < sint (WaitTimeout db)"
      and fail: "\<forall>e. r = Some e \<longrightarrow>
                e = ''unable to connect to database: '' @ last (e0 # errs)
                \<and> sint (WaitTimeout db)
                    \<le> sint (0 :: 64 word) + int (length errs) * sint (WaitInterval db)"
      by blast
    have pr: "probes (e0 # errs) r = Some e0 # probes errs r" by (simp add: probes_def)
    from cs c1 Some have "calls w' = calls w @ C_Ping (Some e0) # retries (WaitInterval db) (probes errs r)"
      by simp
    then have 1: "since w w' = C_Ping (Some e0) # retries (WaitInterval db) (probes errs r)"
      by (rule since_append)
    have 2: "2 \<le> length (probes (e0 # errs) r) \<longrightarrow>
                    int (length (probes (e0 # errs) r) - 2) * sint (WaitInterval db)
                      < sint (WaitTimeout db)"
      using within by (cases "probes errs r") (simp_all add: pr)
    from fail have 3: "\<forall>e. r = Some e \<longrightarrow>
                    e0 # errs \<noteq> []
                    \<and> e = ''unable to connect to database: '' @ last (e0 # errs)
                    \<and> sint (WaitTimeout db)
                        \<le> int (length (e0 # errs) - 1) * sint (WaitInterval db)"
      by simp
    from unf run 1 2 3 show ?thesis
      by (intro exI [of _ r] exI [of _ w'] exI [of _ "e0 # errs"]) (simp add: pr)
  qed
  with Inr show ?thesis by auto
qed

lemma Wait_example:
  "\<exists>w'. Wait simSys (simDB\<lparr>WaitInterval := 0\<rparr>) (start (emptyBackend\<lparr>pingFailures := 3\<rparr>))
         = Some (None, w')
       \<and> calls w' = [C_Ping (Some ''connection refused''), C_Sleep 0,
                      C_Ping (Some ''connection refused''), C_Sleep 0,
                      C_Ping (Some ''connection refused''), C_Sleep 0, C_Ping None]"
  by (simp add: Wait_def GetDriver_def simSys_def simDriver_def simDB_def start_def
      emptyBackend_def Ping_def extern_def Sleep_def extern0_def Print_def
      waitLoop.simps [of _ _ _ _ _ "\<lparr>ext = _, calls = _, out = _\<rparr>"] word_sless_alt)

text \<open>
  C8, as amended. With a positive interval, and a timeout and an interval whose sum is
  at most \<open>2^63\<close> nanoseconds (the loop counter does not wrap), \<open>Wait\<close> returns. If
  the driver is found, it probes once and returns success at once if the probe
  succeeds; otherwise it sleeps one interval before each further probe, returns
  success at the first probe that succeeds, makes each further probe only while the
  intervals slept so far are below the timeout, and when they have reached the
  timeout fails with an error that carries the error of the last probe. With interval
  0, the default timeout and a server that refuses exactly three probes, it returns
  success at the fourth probe.
\<close>

theorem Wait_terminates:
  "(0 <s WaitInterval db \<and> sint (WaitTimeout db) + sint (WaitInterval db) \<le> 2 ^ 63 \<longrightarrow>
      (\<exists>res. Wait sys db w = Some res)
    \<and> (\<forall>drv. GetDriver sys db = Inr drv \<longrightarrow>
         (\<exists>r w' errs. Wait sys db w = Some (r, w')
            \<and> probes errs r \<noteq> []
            \<and> since w w' = C_Ping (hd (probes errs r))
                             # retries (WaitInterval db) (tl (probes errs r))
            \<and> (2 \<le> length (probes errs r) \<longrightarrow>
                 int (length (probes errs r) - 2) * sint (WaitInterval db)
                   < sint (WaitTimeout db))
            \<and> (\<forall>e. r = Some e \<longrightarrow>
                 errs \<noteq> []
                 \<and> e = ''unable to connect to database: '' @ last errs
                 \<and> sint (WaitTimeout db)
                     \<le> int (length errs - 1) * sint (WaitInterval db)))))
   \<and> (\<exists>w'. Wait simSys (simDB\<lparr>WaitInterval := 0\<rparr>)
              (start (emptyBackend\<lparr>pingFailures := 3\<rparr>))
            = Some (None, w')
          \<and> calls w' = [C_Ping (Some ''connection refused''), C_Sleep 0,
                         C_Ping (Some ''connection refused''), C_Sleep 0,
                         C_Ping (Some ''connection refused''), C_Sleep 0, C_Ping None])"
  using Wait_terminates_positive_interval [of db sys w] Wait_example by blast

theorem Wait_terminates_witness:
  "0 <s WaitInterval simDB
   \<and> sint (WaitTimeout simDB) + sint (WaitInterval simDB) \<le> 2 ^ 63
   \<and> (\<exists>res. Wait simSys simDB (start (emptyBackend\<lparr>pingFailures := 2\<rparr>)) = Some res)"
proof -
  have h: "0 <s WaitInterval simDB \<and> sint (WaitTimeout simDB) + sint (WaitInterval simDB) \<le> 2 ^ 63"
    by (simp add: simDB_def word_sless_alt)
  with Wait_terminates [of simDB simSys "start (emptyBackend\<lparr>pingFailures := 2\<rparr>)"]
  show ?thesis by blast
qed

text \<open>
  The claim as stated fails: with interval 0 the loop counter never moves, and against
  a server that refuses every probe \<open>Wait\<close> does not return.
\<close>

lemma waitLoop_dead:
  assumes "waitLoop sys drv db i err w = Some y"
  shows "\<not> (drv = deadDriver \<and> WaitInterval db = 0 \<and> i <s WaitTimeout db)"
proof (rule waitLoop.raw_induct
    [where P = "\<lambda>sys drv db i err w y. \<not> (drv = deadDriver \<and> WaitInterval db = 0 \<and> i <s WaitTimeout db)",
      OF _ assms])
  fix f :: "backend Sys \<Rightarrow> backend Driver \<Rightarrow> DB \<Rightarrow> Duration \<Rightarrow> error \<Rightarrow> backend world
            \<Rightarrow> (error option \<times> backend world) option"
  fix sys drv db i err w y
  assume IH: "\<And>sys drv db i err w y. f sys drv db i err w = Some y \<Longrightarrow>
      \<not> (drv = deadDriver \<and> WaitInterval db = 0 \<and> i <s WaitTimeout db)"
  assume step: "(if i <s WaitTimeout db
      then case Ping drv (DatabaseURL db) (Sleep sys (WaitInterval db) (Print ''.'' w)) of
           (None, w1) \<Rightarrow> Some (None, Print [nl] w1)
           | (Some err1, w1) \<Rightarrow> f sys drv db (i + WaitInterval db) err1 w1
      else Some (Some (''unable to connect to database: '' @ err), Print [nl] w)) = Some y"
  show "\<not> (drv = deadDriver \<and> WaitInterval db = 0 \<and> i <s WaitTimeout db)"
  proof
    assume d: "drv = deadDriver \<and> WaitInterval db = 0 \<and> i <s WaitTimeout db"
    then obtain w1 where "Ping drv (DatabaseURL db) (Sleep sys (WaitInterval db) (Print ''.'' w))
        = (Some ''connection refused'', w1)"
      by (simp add: Ping_def extern_def deadDriver_def)
    with step d have "f sys drv db i ''connection refused'' w1 = Some y" by simp
    from IH [OF this] d show False by simp
  qed
qed

theorem Wait_never_returns_counterexample: "Wait deadSys (simDB\<lparr>WaitInterval := 0\<rparr>) (start emptyBackend) = None"
proof (cases "Wait deadSys (simDB\<lparr>WaitInterval := 0\<rparr>) (start emptyBackend)")
  case None
  then show ?thesis .
next
  case (Some y)
  then have "waitLoop deadSys deadDriver (simDB\<lparr>WaitInterval := 0\<rparr>) 0 ''connection refused''
               (Print ''Waiting for database''
                 (snd (Ping deadDriver (DatabaseURL simDB) (start emptyBackend)))) = Some y"
    by (simp add: Wait_def GetDriver_def deadSys_def simSys_def Ping_def extern_def deadDriver_def
        simDB_def split: prod.splits)
  from waitLoop_dead [OF this] show ?thesis
    by (simp add: simDB_def word_sless_alt)
qed

subsection \<open>Evaluating the engine on the backend\<close>

lemma runes_ascii:
  "runes [] = []" "of_char c < (0x80 :: nat) \<Longrightarrow> runes (c # s) = of_char c # runes s"
  by (simp_all add: runes.simps [of "[]"] runes.simps [of "c # s"])

lemma validUTF8_ascii:
  "validUTF8 []" "of_char c < (0x80 :: nat) \<Longrightarrow> validUTF8 (c # s) = validUTF8 s"
  by (simp_all add: validUTF8.simps [of "[]"] validUTF8.simps [of "c # s"] RuneError_def)

lemmas sim_defs =
  simSys_def simDriver_def simDB_def start_def emptyBackend_def fixture_def fixture3_def
  migA_def migB_def migC_def migD_def migE_def usersUp_def usersDown_def

lemmas call_defs =
  extern_def extern0_def Print_def Begin_def Commit_def TxRollback_def Exec_def GetDriver_def
  Ping_def Sleep_def Open_def CreateMigrationsTable_def SelectMigrations_def
  InsertMigration_def DeleteMigration_def DriverDumpSchema_def ReadDir_def parseMigration_def
  ensureDir_def WriteFile_def mustClose_def

lemmas name_defs = migrationFileRegexp_def matchTail_def isDigit_def migrationVersion_def
  versionFileRegexp_def isApplied_def matchTailRunes_def versionPattern_def QuoteMeta_def
  runes_ascii validUTF8_ascii


subsection \<open>C1: Status\<close>

lemma Print_out [simp]: "out (Print s w) = out w @ [s]"
  by (simp add: Print_def)

lemma extern_out: "extern f ev w = (r, w') \<Longrightarrow> out w' = out w"
  by (auto simp: extern_def split: prod.splits)

lemma mustClose_out [simp]: "out (mustClose sys c w) = out w"
  by (simp add: mustClose_def extern0_def)

lemma statusLoop_result:
  "fst (statusLoop quiet rs a w) = a + int (length (filter applied rs))
   \<and> out (snd (statusLoop quiet rs a w)) = out w @ (if quiet then [] else map statusLine rs)"
  by (induction rs arbitrary: a w) (auto simp: statusLine_def)


text \<open>
  C1, as amended. When the directory is read, holds a migration file, the database
  opens and the driver returns the applied versions, \<open>Status\<close> decides for every file
  \<open>findMigrationFiles\<close> returns, in that (sorted) order, whether its version is
  applied, and returns the number of pending files, with no error. The number of applied
  files is not returned. A quiet run prints nothing; a run that is not quiet prints a
  line per file and the two counts.
\<close>

theorem Status_returns_pending:
  assumes dir: "ReadDir sys (MigrationsDir db) w = (Inr entries, w1)"
    and files: "matchingFiles migrationFileRegexp entries \<noteq> []"
    and drv: "GetDriver sys db = Inr drv"
    and opn: "Open drv (DatabaseURL db) w1 = (Inr c, w2)"
    and tbl: "CreateMigrationsTable drv c w2 = (None, w3)"
    and sel: "SelectMigrations drv c (- 1) w3 = (Inr vs, w4)"
  shows "fst (checkMigrationsStatus sys db w)
           = Inr (map (statusOf vs) (matchingFiles migrationFileRegexp entries))
       \<and> fst (Status sys db quiet w)
           = (int (length (pendingFiles vs (matchingFiles migrationFileRegexp entries))), None)
       \<and> out (snd (Status sys db quiet w))
           = out w @ (if quiet then []
                      else map (statusLine \<circ> statusOf vs) (matchingFiles migrationFileRegexp entries)
                         @ [[nl],
                            ''Applied: '' @ showInt (int (length (matchingFiles migrationFileRegexp entries))
                               - int (length (pendingFiles vs (matchingFiles migrationFileRegexp entries)))) @ [nl],
                            ''Pending: '' @ showInt (int (length (pendingFiles vs
                               (matchingFiles migrationFileRegexp entries)))) @ [nl]])"
proof -
  let ?files = "matchingFiles migrationFileRegexp entries"
  let ?rs = "map (statusOf vs) ?files"
  from dir have f: "findMigrationFiles sys (MigrationsDir db) migrationFileRegexp w = (Inr ?files, w1)"
    by (simp add: findMigrationFiles_def matchingFiles_def)
  from drv opn tbl have o: "openDatabaseForMigration sys db w1 = (Inr (drv, c), w3)"
    by (simp add: openDatabaseForMigration_def)
  from f files o sel have cms: "checkMigrationsStatus sys db w = (Inr ?rs, mustClose sys c w4)"
    by (simp add: checkMigrationsStatus_def statusOf_def [abs_def])
  have outs: "out w4 = out w"
    using dir opn tbl sel
    by (auto simp: ReadDir_def Open_def CreateMigrationsTable_def SelectMigrations_def
        dest!: extern_out)
  have cnt: "int (length (filter applied ?rs)) = int (length ?files) - int (length (pendingFiles vs ?files))"
  proof -
    have "length (filter applied ?rs) = length (filter (\<lambda>name. isApplied vs (migrationVersion name)) ?files)"
      by (simp add: filter_map o_def statusOf_def)
    moreover have "length ?files = length (filter (\<lambda>name. isApplied vs (migrationVersion name)) ?files)
        + length (pendingFiles vs ?files)"
      unfolding pendingFiles_def by (rule sum_length_filter_compl [symmetric])
    ultimately show ?thesis by simp
  qed
  obtain a w5 where sl: "statusLoop quiet ?rs 0 (mustClose sys c w4) = (a, w5)"
    by (cases "statusLoop quiet ?rs 0 (mustClose sys c w4)")
  from statusLoop_result [of quiet ?rs 0 "mustClose sys c w4"] sl cnt outs
  have a: "a = int (length ?files) - int (length (pendingFiles vs ?files))"
    and o5: "out w5 = out w @ (if quiet then [] else map statusLine ?rs)"
    by simp_all
  from cms sl a o5 show ?thesis
    by (simp add: Status_def)
qed

theorem Status_returns_pending_witness:
  "fst (Status simSys simDB True (start fixture)) = (3, None)
   \<and> out (snd (Status simSys simDB True (start fixture))) = []
   \<and> out (snd (Status simSys simDB False (start fixture)))
       = [''[X] 20200101000000_a.sql'' @ [nl], ''[X] 20200102000000_b.sql'' @ [nl],
          ''[ ] 20200103000000_c.sql'' @ [nl], ''[ ] 20200104000000_d.sql'' @ [nl],
          ''[ ] 20200105000000_e.sql'' @ [nl], [nl], ''Applied: 2'' @ [nl], ''Pending: 3'' @ [nl]]"
proof -
  let ?w = "start fixture"
  let ?es = "[(migC, False), (migA, False), (''README.md'', False), (migE, False),
                 (''archive'', True), (migB, False), (migD, False)]"
  let ?vs = "[(''20200102000000'', True), (''20200101000000'', True)]"
  let ?w1 = "snd (ReadDir simSys (MigrationsDir simDB) ?w)"
  let ?w2 = "snd (Open simDriver (DatabaseURL simDB) ?w1)"
  let ?w3 = "snd (CreateMigrationsTable simDriver 0 ?w2)"
  let ?w4 = "snd (SelectMigrations simDriver 0 (- 1) ?w3)"
  have dir: "ReadDir simSys (MigrationsDir simDB) ?w = (Inr ?es, ?w1)"
    by (simp add: sim_defs call_defs)
  have m: "matchingFiles migrationFileRegexp ?es = [migA, migB, migC, migD, migE]"
    by (simp add: matchingFiles_def sim_defs name_defs)
  then have files: "matchingFiles migrationFileRegexp ?es \<noteq> []" by simp
  have drv: "GetDriver simSys simDB = Inr simDriver"
    by (simp add: GetDriver_def simSys_def simDB_def)
  have opn: "Open simDriver (DatabaseURL simDB) ?w1 = (Inr 0, ?w2)"
    by (simp add: sim_defs call_defs)
  have tbl: "CreateMigrationsTable simDriver 0 ?w2 = (None, ?w3)"
    by (simp add: sim_defs call_defs)
  have sel: "SelectMigrations simDriver 0 (- 1) ?w3 = (Inr ?vs, ?w4)"
    by (simp add: sim_defs call_defs)
  have p: "pendingFiles ?vs [migA, migB, migC, migD, migE] = [migC, migD, migE]"
    by (simp add: pendingFiles_def sim_defs name_defs)
  have l: "map (statusLine \<circ> statusOf ?vs) [migA, migB, migC, migD, migE]
       = [''[X] 20200101000000_a.sql'' @ [nl], ''[X] 20200102000000_b.sql'' @ [nl],
          ''[ ] 20200103000000_c.sql'' @ [nl], ''[ ] 20200104000000_d.sql'' @ [nl],
          ''[ ] 20200105000000_e.sql'' @ [nl]]"
    by (simp add: statusLine_def statusOf_def sim_defs name_defs)
  have s: "showInt 2 = ''2''" "showInt 3 = ''3''"
    by code_simp+
  from Status_returns_pending [OF dir files drv opn tbl sel, of True]
    Status_returns_pending [OF dir files drv opn tbl sel, of False]
  show ?thesis
    unfolding m p l by (simp add: s start_def)
qed


text \<open>
  The claim as stated fails: \<open>Status\<close> returns one number, the count of pending files.
  On two applied and three pending files it returns 3, and so it does on no applied and
  three pending files.
\<close>

theorem Status_returns_pending_only_counterexample:
  "fst (Status simSys simDB True (start fixture)) = (3, None)
   \<and> fst (checkMigrationsStatus simSys simDB (start fixture))
     = Inr [\<lparr>filename = migA, applied = True\<rparr>, \<lparr>filename = migB, applied = True\<rparr>,
            \<lparr>filename = migC, applied = False\<rparr>, \<lparr>filename = migD, applied = False\<rparr>,
            \<lparr>filename = migE, applied = False\<rparr>]
   \<and> fst (Status simSys simDB True (start fixture3)) = (3, None)
   \<and> fst (checkMigrationsStatus simSys simDB (start fixture3))
     = Inr [\<lparr>filename = migC, applied = False\<rparr>, \<lparr>filename = migD, applied = False\<rparr>,
            \<lparr>filename = migE, applied = False\<rparr>]"
  by (simp add: Status_def checkMigrationsStatus_def findMigrationFiles_def
      openDatabaseForMigration_def sim_defs call_defs name_defs)

subsection \<open>The calls of each function\<close>

lemma Exec_calls: "Exec sys tx q w = (r, w') \<Longrightarrow> calls w' = calls w @ [C_Exec tx q r]"
  unfolding Exec_def by (rule extern_calls [THEN conjunct1])

lemma InsertMigration_calls:
  "InsertMigration drv tx v w = (r, w') \<Longrightarrow> calls w' = calls w @ [C_InsertMigration tx v r]"
  unfolding InsertMigration_def by (rule extern_calls [THEN conjunct1])

lemma DeleteMigration_calls:
  "DeleteMigration drv tx v w = (r, w') \<Longrightarrow> calls w' = calls w @ [C_DeleteMigration tx v r]"
  unfolding DeleteMigration_def by (rule extern_calls [THEN conjunct1])

lemma Begin_calls: "Begin sys c w = (r, w') \<Longrightarrow> calls w' = calls w @ [C_Begin c r]"
  unfolding Begin_def by (rule extern_calls [THEN conjunct1])

lemma Commit_calls: "Commit sys tx w = (r, w') \<Longrightarrow> calls w' = calls w @ [C_Commit tx r]"
  unfolding Commit_def by (rule extern_calls [THEN conjunct1])

lemma TxRollback_calls: "TxRollback sys tx w = (r, w') \<Longrightarrow> calls w' = calls w @ [C_Rollback tx r]"
  unfolding TxRollback_def by (rule extern_calls [THEN conjunct1])

lemma parseMigration_calls:
  "parseMigration sys p w = (r, w') \<Longrightarrow> calls w' = calls w @ [C_ParseMigration p r]"
  unfolding parseMigration_def by (rule extern_calls [THEN conjunct1])

lemma execStatements_calls:
  "execStatements sys tx sts w = (r, w') \<Longrightarrow>
   \<exists>t. calls w' = calls w @ t
     \<and> (\<forall>e \<in> set t. \<exists>q res. e = C_Exec tx q res \<and> q \<in> set sts)
     \<and> (r = None \<longrightarrow> t = map (\<lambda>q. C_Exec tx q None) sts)"
proof (induction sts arbitrary: w)
  case Nil
  then show ?case by simp
next
  case (Cons q sts)
  obtain r1 w1 where e: "Exec sys tx q w = (r1, w1)" by (cases "Exec sys tx q w")
  note c1 = Exec_calls [OF e]
  show ?case
  proof (cases r1)
    case (Some err)
    with Cons.prems e have "r = Some err" "w' = w1" by simp_all
    with c1 show ?thesis by (intro exI [of _ "[C_Exec tx q r1]"]) simp
  next
    case None
    with Cons.prems e have "execStatements sys tx sts w1 = (r, w')" by simp
    from Cons.IH [OF this] obtain t where
      t: "calls w' = calls w1 @ t" "\<forall>e \<in> set t. \<exists>q res. e = C_Exec tx q res \<and> q \<in> set sts"
        "r = None \<longrightarrow> t = map (\<lambda>q. C_Exec tx q None) sts"
      by blast
    with c1 None show ?thesis
      by (intro exI [of _ "C_Exec tx q None # t"]) auto
  qed
qed

lemma executeScript_calls:
  assumes "executeScript sys tx script native w = (r, w')"
  shows "\<exists>t. calls w' = calls w @ t
     \<and> (\<forall>e \<in> set t. \<exists>q res. e = C_Exec tx q res \<and> q \<in> set (scriptStatements native script))
     \<and> (r = None \<longrightarrow> t = scriptCalls native tx script)"
proof (cases native)
  case True
  with assms have "Exec sys tx script (Print (''Executing script on native engine'' @ [nl]) w) = (r, w')"
    by (simp add: executeScript_def)
  from Exec_calls [OF this] True show ?thesis
    by (intro exI [of _ "[C_Exec tx script r]"]) (simp add: scriptStatements_def scriptCalls_def)
next
  case False
  with assms have "execStatements sys tx (parseStatements script)
      (Print (''Executing script on DBMate engine'' @ [nl]) w) = (r, w')"
    by (simp add: executeScript_def)
  from execStatements_calls [OF this] False show ?thesis
    by (simp add: scriptStatements_def scriptCalls_def)
qed

lemma execMigrationUp_calls:
  assumes "execMigrationUp sys drv native up ver tx w = (r, w')"
  shows "\<exists>t. calls w' = calls w @ t
     \<and> (\<forall>e \<in> set t. upEvent native up ver tx e)
     \<and> (r = None \<longrightarrow> t = scriptCalls native tx (Contents up) @ [C_InsertMigration tx ver None])"
proof -
  obtain r1 w1 where e: "executeScript sys tx (Contents up) native w = (r1, w1)"
    by (cases "executeScript sys tx (Contents up) native w")
  from executeScript_calls [OF e] obtain t where
    t: "calls w1 = calls w @ t"
      "\<forall>e \<in> set t. \<exists>q res. e = C_Exec tx q res \<and> q \<in> set (scriptStatements native (Contents up))"
      "r1 = None \<longrightarrow> t = scriptCalls native tx (Contents up)"
    by blast
  show ?thesis
  proof (cases r1)
    case (Some err)
    with assms e have "r = Some err" "w' = w1" by (simp_all add: execMigrationUp_def)
    with t show ?thesis by (intro exI [of _ t]) (auto simp: upEvent_def)
  next
    case None
    with assms e have "InsertMigration drv tx ver w1 = (r, w')" by (simp add: execMigrationUp_def)
    from InsertMigration_calls [OF this] t None show ?thesis
      by (intro exI [of _ "t @ [C_InsertMigration tx ver r]"]) (auto simp: upEvent_def)
  qed
qed

lemma kinds_simps [simp]:
  "kinds [] = {}" "kinds (e # t) = insert (kindOf e) (kinds t)" "kinds (t @ u) = kinds t \<union> kinds u"
  by (auto simp: kinds_def)

lemma parsed_simps [simp]:
  "parsed [] = []" "parsed (t @ u) = parsed t @ parsed u"
  "parsed (C_ParseMigration p r # t) = p # parsed t"
  "kindOf e \<noteq> ParseK \<Longrightarrow> parsed (e # t) = parsed t"
  by (auto simp: parsed_def split: call.splits)

lemma parsed_none: "ParseK \<notin> kinds t \<Longrightarrow> parsed t = []"
  by (induction t) auto

lemma upEvent_kind: "upEvent native up ver tx e \<Longrightarrow> kindOf e = ExecK \<or> kindOf e = Book"
  by (auto simp: upEvent_def)

lemma doTransaction_calls:
  assumes run: "doTransaction sys c body w = (r, w')"
    and body: "\<And>tx w1 rb w2. body (OnTx tx) w1 = (rb, w2) \<Longrightarrow>
        \<exists>t. calls w2 = calls w1 @ t \<and> (\<forall>e \<in> set t. P tx e) \<and> (rb = None \<longrightarrow> t = ok tx)"
  shows "\<exists>t. calls w' = calls w @ t
     \<and> (\<forall>e \<in> set t. kindOf e = TxK \<or> (\<exists>tx. P tx e))
     \<and> (r = None \<longrightarrow> (\<exists>tx. t = C_Begin c (Inr tx) # ok tx @ [C_Commit tx None]))"
proof -
  obtain br w1 where b: "Begin sys c w = (br, w1)" by (cases "Begin sys c w")
  note c1 = Begin_calls [OF b]
  show ?thesis
  proof (cases br)
    case (Inl err)
    with run b have "r = Some err" "w' = w1" by (simp_all add: doTransaction_def)
    with c1 show ?thesis by (intro exI [of _ "[C_Begin c br]"]) simp
  next
    case (Inr tx)
    obtain rb w2 where bd: "body (OnTx tx) w1 = (rb, w2)" by (cases "body (OnTx tx) w1")
    from body [OF bd] obtain tb where
      tb: "calls w2 = calls w1 @ tb" "\<forall>e \<in> set tb. P tx e" "rb = None \<longrightarrow> tb = ok tx"
      by blast
    show ?thesis
    proof (cases rb)
      case None
      with run b Inr bd have cm: "Commit sys tx w2 = (r, w')" by (simp add: doTransaction_def)
      from Commit_calls [OF cm] c1 tb None Inr show ?thesis
        by (intro exI [of _ "C_Begin c (Inr tx) # tb @ [C_Commit tx r]"]) auto
    next
      case (Some err)
      obtain rr w3 where rb: "TxRollback sys tx w2 = (rr, w3)" by (cases "TxRollback sys tx w2")
      with run b Inr bd Some have "w' = w3" "r \<noteq> None"
        by (auto simp: doTransaction_def split: option.splits)
      with TxRollback_calls [OF rb] c1 tb Inr show ?thesis
        by (intro exI [of _ "C_Begin c (Inr tx) # tb @ [C_Rollback tx rr]"]) auto
    qed
  qed
qed

lemma migrateFiles_Cons:
  "migrateFiles sys db drv sqlDB useNative vs (name # files) w =
     (if isApplied vs (migrationVersion name) then
        migrateFiles sys db drv sqlDB useNative vs files w
      else
        (case applyFile sys db drv sqlDB useNative name w of
           (Some err, w2) \<Rightarrow> (Some err, w2)
         | (None, w2) \<Rightarrow> migrateFiles sys db drv sqlDB useNative vs files w2))"
  by (auto simp: applyFile_def split: prod.splits sum.splits option.splits)

lemma applyFile_calls:
  assumes "applyFile sys db drv c native name w = (r, w')"
  shows "\<exists>pr t. calls w' = calls w @ C_ParseMigration (sysJoin sys (MigrationsDir db) name) pr # t
     \<and> (case pr of
           Inl err \<Rightarrow> t = [] \<and> r = Some err
         | Inr (up, down) \<Rightarrow>
             (\<forall>e \<in> set t. kindOf e = TxK \<or> (\<exists>tx. upEvent native up (migrationVersion name) tx e))
             \<and> (r = None \<longrightarrow>
                  (\<exists>tx. C_ParseMigration (sysJoin sys (MigrationsDir db) name) pr # t
                        = applyCalls native c (sysJoin sys (MigrationsDir db)) (name, up, down, tx))))"
proof -
  let ?p = "sysJoin sys (MigrationsDir db) name"
  let ?v = "migrationVersion name"
  obtain pr w1 where p: "parseMigration sys ?p (Print (''Applying: '' @ name @ [nl]) w) = (pr, w1)"
    by (cases "parseMigration sys ?p (Print (''Applying: '' @ name @ [nl]) w)")
  from parseMigration_calls [OF p] have c1: "calls w1 = calls w @ [C_ParseMigration ?p pr]"
    by simp
  show ?thesis
  proof (cases pr)
    case (Inl err)
    with assms p have "r = Some err" "w' = w1" by (simp_all add: applyFile_def)
    with c1 Inl show ?thesis by (intro exI [of _ pr] exI [of _ "[]"]) simp
  next
    case (Inr ud)
    obtain up down where ud: "ud = (up, down)" by (cases ud)
    show ?thesis
    proof (cases "OptionsTransaction up")
      case True
      with assms p Inr ud have
        "doTransaction sys c (execMigrationUp sys drv native up ?v) w1 = (r, w')"
        by (simp add: applyFile_def)
      from doTransaction_calls [OF this, where P = "\<lambda>tx. upEvent native up ?v (OnTx tx)"
          and ok = "\<lambda>tx. scriptCalls native (OnTx tx) (Contents up) @ [C_InsertMigration (OnTx tx) ?v None]"]
        execMigrationUp_calls
      obtain t where t: "calls w' = calls w1 @ t"
        "\<forall>e \<in> set t. kindOf e = TxK \<or> (\<exists>tx. upEvent native up ?v (OnTx tx) e)"
        "r = None \<longrightarrow> (\<exists>tx. t = C_Begin c (Inr tx)
            # (scriptCalls native (OnTx tx) (Contents up) @ [C_InsertMigration (OnTx tx) ?v None])
            @ [C_Commit tx None])"
        by blast
      with c1 Inr ud True show ?thesis
        by (intro exI [of _ pr] exI [of _ t]) (auto simp: applyCalls_def)
    next
      case False
      with assms p Inr ud have
        "execMigrationUp sys drv native up ?v (OnDB c) w1 = (r, w')"
        by (simp add: applyFile_def)
      from execMigrationUp_calls [OF this] obtain t where t: "calls w' = calls w1 @ t"
        "\<forall>e \<in> set t. upEvent native up ?v (OnDB c) e"
        "r = None \<longrightarrow> t = scriptCalls native (OnDB c) (Contents up) @ [C_InsertMigration (OnDB c) ?v None]"
        by blast
      with c1 Inr ud False show ?thesis
        by (intro exI [of _ pr] exI [of _ t]) (auto simp: applyCalls_def)
    qed
  qed
qed

lemma execsFollowMode_append:
  "execsFollowMode native section t \<Longrightarrow> execsFollowMode native section u \<Longrightarrow>
   execsFollowMode native section (t @ u)"
  unfolding execsFollowMode_def by (metis Un_iff set_append)

lemma execsFollowMode_no_exec: "ExecK \<notin> kinds t \<Longrightarrow> execsFollowMode native section t"
  unfolding execsFollowMode_def kinds_def by (metis image_eqI kindOf.simps(13))

lemma applyFile_facts:
  assumes "applyFile sys db drv c native name w = (r, w')"
  shows "\<exists>t. calls w' = calls w @ t
     \<and> kinds t \<subseteq> {ParseK, TxK, ExecK, Book}
     \<and> execsFollowMode native fst t
     \<and> parsed t = [sysJoin sys (MigrationsDir db) name]
     \<and> (r = None \<longrightarrow>
          (\<exists>up down tx. t = applyCalls native c (sysJoin sys (MigrationsDir db)) (name, up, down, tx)))"
proof -
  let ?p = "sysJoin sys (MigrationsDir db) name"
  from applyFile_calls [OF assms] obtain pr t where
    c: "calls w' = calls w @ C_ParseMigration ?p pr # t"
    and sh: "case pr of
           Inl err \<Rightarrow> t = [] \<and> r = Some err
         | Inr (up, down) \<Rightarrow>
             (\<forall>e \<in> set t. kindOf e = TxK \<or> (\<exists>tx. upEvent native up (migrationVersion name) tx e))
             \<and> (r = None \<longrightarrow>
                  (\<exists>tx. C_ParseMigration ?p pr # t = applyCalls native c (sysJoin sys (MigrationsDir db)) (name, up, down, tx)))"
    by blast
  show ?thesis
  proof (cases pr)
    case (Inl err)
    with sh c show ?thesis
      by (intro exI [of _ "[C_ParseMigration ?p pr]"])
        (simp add: execsFollowMode_no_exec)
  next
    case (Inr ud)
    obtain up down where ud: "ud = (up, down)" by (cases ud)
    from sh Inr ud have ev: "\<forall>e \<in> set t. kindOf e = TxK \<or> (\<exists>tx. upEvent native up (migrationVersion name) tx e)"
      and ok: "r = None \<longrightarrow>
                  (\<exists>tx. C_ParseMigration ?p pr # t = applyCalls native c (sysJoin sys (MigrationsDir db)) (name, up, down, tx))"
      by simp_all
    from ev have k: "kinds t \<subseteq> {TxK, ExecK, Book}"
      by (auto simp: kinds_def dest: upEvent_kind)
    then have np: "parsed t = []" by (intro parsed_none) auto
    have fm: "execsFollowMode native fst (C_ParseMigration ?p pr # t)"
      unfolding execsFollowMode_def
    proof (intro allI impI)
      fix tx q res
      assume "C_Exec tx q res \<in> set (C_ParseMigration ?p pr # t)"
      then have "C_Exec tx q res \<in> set t" by simp
      with ev have "q \<in> set (scriptStatements native (Contents up))"
        by (auto simp: upEvent_def)
      with Inr ud show "\<exists>p ud. C_ParseMigration p (Inr ud) \<in> set (C_ParseMigration ?p pr # t)
           \<and> q \<in> set (scriptStatements native (Contents (fst ud)))"
        by (intro exI [of _ ?p] exI [of _ "(up, down)"]) simp
    qed
    from c k np fm ok show ?thesis
      by (intro exI [of _ "C_ParseMigration ?p pr # t"]) auto
  qed
qed

lemma appliedInOrder_Nil: "appliedInOrder native c path [] None []"
  by (simp add: appliedInOrder_def)

lemma appliedInOrder_failed:
  "parsed tf = [path name] \<Longrightarrow> appliedInOrder native c path (name # pend) (Some err) tf"
  unfolding appliedInOrder_def by (intro conjI impI exI [of _ "[]"] exI [of _ tf]) simp_all

lemma appliedInOrder_Cons:
  assumes "appliedInOrder native c path pend r t"
  shows "appliedInOrder native c path (name # pend) r (applyCalls native c path (name, up, down, tx) @ t)"
  unfolding appliedInOrder_def
proof (intro conjI impI)
  assume "r = None"
  with assms obtain infos where "map fst infos = pend" "t = concat (map (applyCalls native c path) infos)"
    unfolding appliedInOrder_def by blast
  then show "\<exists>infos. map fst infos = name # pend
      \<and> applyCalls native c path (name, up, down, tx) @ t = concat (map (applyCalls native c path) infos)"
    by (intro exI [of _ "(name, up, down, tx) # infos"]) simp
next
  assume "r \<noteq> None"
  with assms obtain infos tf where
    "length infos < length pend" "map fst infos = take (length infos) pend"
    "t = concat (map (applyCalls native c path) infos) @ tf"
    "parsed tf = [path (pend ! length infos)]"
    unfolding appliedInOrder_def by blast
  then show "\<exists>infos tf. length infos < length (name # pend)
      \<and> map fst infos = take (length infos) (name # pend)
      \<and> applyCalls native c path (name, up, down, tx) @ t = concat (map (applyCalls native c path) infos) @ tf
      \<and> parsed tf = [path ((name # pend) ! length infos)]"
    by (intro exI [of _ "(name, up, down, tx) # infos"] exI [of _ tf]) simp
qed

lemma migrateFiles_calls:
  "migrateFiles sys db drv c native vs files w = (r, w') \<Longrightarrow>
   \<exists>t. calls w' = calls w @ t
     \<and> kinds t \<subseteq> {ParseK, TxK, ExecK, Book}
     \<and> execsFollowMode native fst t
     \<and> appliedInOrder native c (sysJoin sys (MigrationsDir db)) (pendingFiles vs files) r t"
proof (induction files arbitrary: w)
  case Nil
  then show ?case
    by (intro exI [of _ "[]"]) (simp add: pendingFiles_def execsFollowMode_def appliedInOrder_Nil)
next
  case (Cons name files)
  let ?path = "sysJoin sys (MigrationsDir db)"
  show ?case
  proof (cases "isApplied vs (migrationVersion name)")
    case True
    with Cons.prems have "migrateFiles sys db drv c native vs files w = (r, w')"
      by (simp add: migrateFiles_Cons del: migrateFiles.simps)
    from Cons.IH [OF this] True show ?thesis by (simp add: pendingFiles_def)
  next
    case False
    then have pend: "pendingFiles vs (name # files) = name # pendingFiles vs files"
      by (simp add: pendingFiles_def)
    obtain r1 w1 where a: "applyFile sys db drv c native name w = (r1, w1)"
      by (cases "applyFile sys db drv c native name w")
    from applyFile_facts [OF a] obtain t1 where
      c1: "calls w1 = calls w @ t1"
      and k1: "kinds t1 \<subseteq> {ParseK, TxK, ExecK, Book}"
      and f1: "execsFollowMode native fst t1"
      and p1: "parsed t1 = [?path name]"
      and ok1: "r1 = None \<longrightarrow> (\<exists>up down tx. t1 = applyCalls native c ?path (name, up, down, tx))"
      by blast
    show ?thesis
    proof (cases r1)
      case (Some err)
      with Cons.prems a False have "r = Some err" "w' = w1"
        by (simp_all add: migrateFiles_Cons del: migrateFiles.simps)
      moreover have "appliedInOrder native c ?path (name # pendingFiles vs files) (Some err) t1"
        using p1 by (rule appliedInOrder_failed [where path = "?path"])
      ultimately show ?thesis using c1 k1 f1 pend
        by (intro exI [of _ t1]) simp
    next
      case None
      with Cons.prems a False have "migrateFiles sys db drv c native vs files w1 = (r, w')"
        by (simp add: migrateFiles_Cons del: migrateFiles.simps)
      from Cons.IH [OF this] obtain t2 where
        c2: "calls w' = calls w1 @ t2"
        and k2: "kinds t2 \<subseteq> {ParseK, TxK, ExecK, Book}"
        and f2: "execsFollowMode native fst t2"
        and o2: "appliedInOrder native c ?path (pendingFiles vs files) r t2"
        by blast
      from ok1 None obtain up down tx where t1: "t1 = applyCalls native c ?path (name, up, down, tx)"
        by blast
      from appliedInOrder_Cons [OF o2, of name up down tx] t1 pend
      have "appliedInOrder native c ?path (pendingFiles vs (name # files)) r (t1 @ t2)"
        by simp
      with c1 c2 k1 k2 execsFollowMode_append [OF f1 f2] show ?thesis
        by (intro exI [of _ "t1 @ t2"]) auto
    qed
  qed
qed

lemma opened_simps [simp]:
  "opened [] = []" "opened (t @ u) = opened t @ opened u"
  "opened (C_Open (Inr c) # t) = c # opened t"
  "opened (C_Open (Inl err) # t) = opened t"
  "kindOf e \<noteq> Conn \<Longrightarrow> opened (e # t) = opened t"
  "opened (C_Close c # t) = opened t"
  by (auto simp: opened_def split: call.splits sum.splits)

lemma closed_simps [simp]:
  "closed [] = []" "closed (t @ u) = closed t @ closed u"
  "closed (C_Close c # t) = c # closed t"
  "kindOf e \<noteq> Conn \<Longrightarrow> closed (e # t) = closed t"
  "closed (C_Open r # t) = closed t"
  by (auto simp: closed_def split: call.splits sum.splits)

lemma no_conn: "Conn \<notin> kinds t \<Longrightarrow> opened t = [] \<and> closed t = []"
  by (induction t) auto

lemma Open_calls: "Open drv u w = (r, w') \<Longrightarrow> calls w' = calls w @ [C_Open r]"
  unfolding Open_def by (rule extern_calls [THEN conjunct1])

lemma CreateMigrationsTable_calls:
  "CreateMigrationsTable drv c w = (r, w') \<Longrightarrow> calls w' = calls w @ [C_CreateMigrationsTable c r]"
  unfolding CreateMigrationsTable_def by (rule extern_calls [THEN conjunct1])

lemma SelectMigrations_calls:
  "SelectMigrations drv c l w = (r, w') \<Longrightarrow> calls w' = calls w @ [C_SelectMigrations c l r]"
  unfolding SelectMigrations_def by (rule extern_calls [THEN conjunct1])

lemma DriverDumpSchema_calls:
  "DriverDumpSchema drv u c w = (r, w') \<Longrightarrow> calls w' = calls w @ [C_DumpSchema c r]"
  unfolding DriverDumpSchema_def by (rule extern_calls [THEN conjunct1])

lemma ReadDir_calls: "ReadDir sys d w = (r, w') \<Longrightarrow> calls w' = calls w @ [C_ReadDir d r]"
  unfolding ReadDir_def by (rule extern_calls [THEN conjunct1])

lemma ensureDir_calls: "ensureDir sys d w = (r, w') \<Longrightarrow> calls w' = calls w @ [C_EnsureDir d r]"
  unfolding ensureDir_def by (rule extern_calls [THEN conjunct1])

lemma WriteFile_calls: "WriteFile sys p x w = (r, w') \<Longrightarrow> calls w' = calls w @ [C_WriteFile p x r]"
  unfolding WriteFile_def by (rule extern_calls [THEN conjunct1])

lemma mustClose_calls [simp]: "calls (mustClose sys c w) = calls w @ [C_Close c]"
  by (simp add: mustClose_def extern0_def)

lemma waitLoop_kinds:
  assumes "waitLoop sys drv db i err w = Some y"
  shows "\<exists>t. calls (snd y) = calls w @ t \<and> kinds t \<subseteq> {Probe}"
proof (rule waitLoop.raw_induct
    [where P = "\<lambda>sys drv db i err w y. \<exists>t. calls (snd y) = calls w @ t \<and> kinds t \<subseteq> {Probe}",
      OF _ assms])
  fix f :: "'a Sys \<Rightarrow> 'a Driver \<Rightarrow> DB \<Rightarrow> Duration \<Rightarrow> error \<Rightarrow> 'a world
            \<Rightarrow> (error option \<times> 'a world) option"
  fix sys drv db i err w y
  assume IH: "\<And>sys drv db i err w y. f sys drv db i err w = Some y \<Longrightarrow>
      \<exists>t. calls (snd y) = calls w @ t \<and> kinds t \<subseteq> {Probe}"
  assume step: "(if i <s WaitTimeout db
      then case Ping drv (DatabaseURL db) (Sleep sys (WaitInterval db) (Print ''.'' w)) of
           (None, w1) \<Rightarrow> Some (None, Print [nl] w1)
           | (Some err1, w1) \<Rightarrow> f sys drv db (i + WaitInterval db) err1 w1
      else Some (Some (''unable to connect to database: '' @ err), Print [nl] w)) = Some y"
  show "\<exists>t. calls (snd y) = calls w @ t \<and> kinds t \<subseteq> {Probe}"
  proof (cases "i <s WaitTimeout db")
    case False
    with step show ?thesis by (intro exI [of _ "[]"]) auto
  next
    case True
    obtain p w1 where pg: "Ping drv (DatabaseURL db) (Sleep sys (WaitInterval db) (Print ''.'' w)) = (p, w1)"
      by (cases "Ping drv (DatabaseURL db) (Sleep sys (WaitInterval db) (Print ''.'' w))")
    from Ping_calls [OF pg] have c1: "calls w1 = calls w @ [C_Sleep (WaitInterval db), C_Ping p]"
      by simp
    show ?thesis
    proof (cases p)
      case None
      with step True pg have "y = (None, Print [nl] w1)" by simp
      with c1 show ?thesis
        by (intro exI [of _ "[C_Sleep (WaitInterval db), C_Ping p]"]) simp
    next
      case (Some e1)
      with step True pg have "f sys drv db (i + WaitInterval db) e1 w1 = Some y" by simp
      from IH [OF this] obtain t where "calls (snd y) = calls w1 @ t" "kinds t \<subseteq> {Probe}"
        by blast
      with c1 show ?thesis
        by (intro exI [of _ "[C_Sleep (WaitInterval db), C_Ping p] @ t"]) simp
    qed
  qed
qed

lemma Wait_kinds:
  assumes "Wait sys db w = Some (r, w')"
  shows "\<exists>t. calls w' = calls w @ t \<and> kinds t \<subseteq> {Probe}"
proof (cases "GetDriver sys db")
  case (Inl err)
  with assms show ?thesis by (intro exI [of _ "[]"]) (simp add: Wait_def)
next
  case (Inr drv)
  obtain p w1 where pg: "Ping drv (DatabaseURL db) w = (p, w1)"
    by (cases "Ping drv (DatabaseURL db) w")
  note c1 = Ping_calls [OF pg]
  show ?thesis
  proof (cases p)
    case None
    with assms Inr pg have "w' = w1" by (simp add: Wait_def)
    with c1 show ?thesis by (intro exI [of _ "[C_Ping p]"]) simp
  next
    case (Some e0)
    with assms Inr pg have "waitLoop sys drv db 0 e0 (Print ''Waiting for database'' w1) = Some (r, w')"
      by (simp add: Wait_def)
    from waitLoop_kinds [OF this] obtain t where "calls w' = calls w1 @ t" "kinds t \<subseteq> {Probe}"
      by auto
    with c1 show ?thesis by (intro exI [of _ "C_Ping p # t"]) simp
  qed
qed

lemma openDatabaseForMigration_calls:
  assumes "openDatabaseForMigration sys db w = (r, w')"
  shows "(\<exists>drv c. r = Inr (drv, c) \<and> GetDriver sys db = Inr drv
            \<and> calls w' = calls w @ [C_Open (Inr c), C_CreateMigrationsTable c None])
       \<or> (\<exists>err t. r = Inl err \<and> calls w' = calls w @ t \<and> kinds t \<subseteq> {Conn, Table}
            \<and> closed t = opened t \<and> length (opened t) \<le> 1)"
proof (cases "GetDriver sys db")
  case (Inl err)
  with assms have "r = Inl err" "w' = w" by (auto simp: openDatabaseForMigration_def)
  then show ?thesis by (intro disjI2 exI [of _ err] exI [of _ "[]"]) simp
next
  case (Inr drv)
  obtain ro w1 where o: "Open drv (DatabaseURL db) w = (ro, w1)"
    by (cases "Open drv (DatabaseURL db) w")
  note c1 = Open_calls [OF o]
  show ?thesis
  proof (cases ro)
    case (Inl err)
    with assms Inr o have "r = Inl err" "w' = w1" by (simp_all add: openDatabaseForMigration_def)
    with c1 Inl show ?thesis by (intro disjI2 exI [of _ err] exI [of _ "[C_Open ro]"]) simp
  next
    case c: (Inr c)
    obtain rt w2 where t: "CreateMigrationsTable drv c w1 = (rt, w2)"
      by (cases "CreateMigrationsTable drv c w1")
    note c2 = CreateMigrationsTable_calls [OF t]
    show ?thesis
    proof (cases rt)
      case None
      with assms Inr o c t have "r = Inr (drv, c)" "w' = w2"
        by (simp_all add: openDatabaseForMigration_def)
      with c1 c2 c None Inr show ?thesis by simp
    next
      case (Some err)
      with assms Inr o c t have "r = Inl err" "w' = mustClose sys c w2"
        by (simp_all add: openDatabaseForMigration_def)
      with c1 c2 c show ?thesis
        by (intro disjI2 exI [of _ err]
            exI [of _ "[C_Open (Inr c), C_CreateMigrationsTable c rt, C_Close c]"]) simp
    qed
  qed
qed

lemma dumpSchemaBody_kinds:
  assumes "dumpSchemaBody sys db drv c w = (r, w')"
  shows "\<exists>t. calls w' = calls w @ t \<and> kinds t \<subseteq> {Dump}"
proof -
  obtain rd w1 where d: "DriverDumpSchema drv (DatabaseURL db) c w = (rd, w1)"
    by (cases "DriverDumpSchema drv (DatabaseURL db) c w")
  note c1 = DriverDumpSchema_calls [OF d]
  show ?thesis
  proof (cases rd)
    case (Inl err)
    with assms d have "w' = w1" by (simp add: dumpSchemaBody_def)
    with c1 show ?thesis by (intro exI [of _ "[C_DumpSchema c rd]"]) simp
  next
    case (Inr schema)
    let ?w = "Print (''Writing: '' @ SchemaFile db @ [nl]) w1"
    obtain re w2 where e: "ensureDir sys (sysDir sys (SchemaFile db)) ?w = (re, w2)"
      by (cases "ensureDir sys (sysDir sys (SchemaFile db)) ?w")
    from ensureDir_calls [OF e] c1
    have c2: "calls w2 = calls w @ [C_DumpSchema c rd, C_EnsureDir (sysDir sys (SchemaFile db)) re]"
      by simp
    show ?thesis
    proof (cases re)
      case (Some err)
      with assms d Inr e have "w' = w2" by (simp add: dumpSchemaBody_def)
      with c2 show ?thesis by (intro exI [of _ "[C_DumpSchema c rd, C_EnsureDir (sysDir sys (SchemaFile db)) re]"]) simp
    next
      case None
      with assms d Inr e have "WriteFile sys (SchemaFile db) schema w2 = (r, w')"
        by (simp add: dumpSchemaBody_def)
      from WriteFile_calls [OF this] c2 show ?thesis
        by (intro exI [of _ "[C_DumpSchema c rd, C_EnsureDir (sysDir sys (SchemaFile db)) re,
              C_WriteFile (SchemaFile db) schema r]"]) simp
    qed
  qed
qed

lemma dumpSchemaOpen_calls:
  assumes "dumpSchemaOpen sys db w = (r, w')"
  shows "\<exists>t. calls w' = calls w @ t \<and> kinds t \<subseteq> {Conn, Table, Dump}
           \<and> closed t = opened t \<and> length (opened t) \<le> 1"
proof -
  obtain ro w1 where o: "openDatabaseForMigration sys db w = (ro, w1)"
    by (cases "openDatabaseForMigration sys db w")
  from openDatabaseForMigration_calls [OF o] show ?thesis
  proof (elim disjE exE conjE)
    fix err t
    assume "ro = Inl err" "calls w1 = calls w @ t" "kinds t \<subseteq> {Conn, Table}"
      "closed t = opened t" "length (opened t) \<le> 1"
    moreover from this assms o have "w' = w1" by (simp add: dumpSchemaOpen_def)
    ultimately show ?thesis by (intro exI [of _ t]) auto
  next
    fix drv c
    assume ok: "ro = Inr (drv, c)"
      and c1: "calls w1 = calls w @ [C_Open (Inr c), C_CreateMigrationsTable c None]"
    obtain rb w2 where b: "dumpSchemaBody sys db drv c w1 = (rb, w2)"
      by (cases "dumpSchemaBody sys db drv c w1")
    from dumpSchemaBody_kinds [OF b] obtain t where t: "calls w2 = calls w1 @ t" "kinds t \<subseteq> {Dump}"
      by blast
    then have "Conn \<notin> kinds t" by auto
    from no_conn [OF this] have nc: "opened t = []" "closed t = []" by simp_all
    from assms o ok b have "w' = mustClose sys c w2" by (simp add: dumpSchemaOpen_def)
    with c1 t nc show ?thesis
      by (intro exI [of _ "[C_Open (Inr c), C_CreateMigrationsTable c None] @ t @ [C_Close c]"])
        auto
  qed
qed

lemma DumpSchema_calls:
  assumes "DumpSchema sys db w = Some (r, w')"
  shows "\<exists>t. calls w' = calls w @ t \<and> kinds t \<subseteq> {Probe, Conn, Table, Dump}
           \<and> closed t = opened t \<and> length (opened t) \<le> 1"
proof (cases "WaitBefore db")
  case False
  with assms have "dumpSchemaOpen sys db w = (r, w')" by (simp add: DumpSchema_def)
  from dumpSchemaOpen_calls [OF this] show ?thesis by auto
next
  case True
  with assms obtain rw w1 where wt: "Wait sys db w = Some (rw, w1)"
    by (auto simp: DumpSchema_def split: option.splits)
  from Wait_kinds [OF wt] obtain t1 where t1: "calls w1 = calls w @ t1" "kinds t1 \<subseteq> {Probe}"
    by blast
  then have "Conn \<notin> kinds t1" by auto
  from no_conn [OF this] have nc: "opened t1 = []" "closed t1 = []" by simp_all
  show ?thesis
  proof (cases rw)
    case (Some err)
    with assms True wt have "w' = w1" by (simp add: DumpSchema_def)
    with t1 nc show ?thesis by (intro exI [of _ t1]) auto
  next
    case None
    with assms True wt have "dumpSchemaOpen sys db w1 = (r, w')" by (simp add: DumpSchema_def)
    from dumpSchemaOpen_calls [OF this] obtain t2 where
      "calls w' = calls w1 @ t2" "kinds t2 \<subseteq> {Conn, Table, Dump}"
      "closed t2 = opened t2" "length (opened t2) \<le> 1"
      by blast
    with t1 nc show ?thesis by (intro exI [of _ "t1 @ t2"]) auto
  qed
qed

lemma migrateBody_calls:
  assumes "migrateBody sys db drv c files w = Some (r, w')"
  shows "\<exists>rs tm td. calls w' = calls w @ C_SelectMigrations c (- 1) rs # tm @ td
     \<and> kinds tm \<subseteq> {ParseK, TxK, ExecK, Book}
     \<and> execsFollowMode (useNativeEngine db) fst tm
     \<and> kinds td \<subseteq> {Probe, Conn, Table, Dump}
     \<and> closed td = opened td \<and> length (opened td) \<le> 1
     \<and> (\<forall>vs. rs = Inr vs \<longrightarrow>
           appliedInOrder (useNativeEngine db) c (sysJoin sys (MigrationsDir db))
             (pendingFiles vs files) r tm)"
proof -
  obtain rs w1 where sel: "SelectMigrations drv c (- 1) w = (rs, w1)"
    by (cases "SelectMigrations drv c (- 1) w")
  note c1 = SelectMigrations_calls [OF sel]
  show ?thesis
  proof (cases rs)
    case (Inl err)
    with assms sel have "w' = w1" by (simp add: migrateBody_def)
    with c1 Inl show ?thesis
      by (intro exI [of _ rs] exI [of _ "[]"]) (simp add: execsFollowMode_def)
  next
    case (Inr vs)
    obtain rl w2 where lp: "migrateFiles sys db drv c (useNativeEngine db) vs files w1 = (rl, w2)"
      by (cases "migrateFiles sys db drv c (useNativeEngine db) vs files w1")
    from migrateFiles_calls [OF lp] obtain tm where
      c2: "calls w2 = calls w1 @ tm"
      and km: "kinds tm \<subseteq> {ParseK, TxK, ExecK, Book}"
      and fm: "execsFollowMode (useNativeEngine db) fst tm"
      and mc: "appliedInOrder (useNativeEngine db) c (sysJoin sys (MigrationsDir db))
             (pendingFiles vs files) rl tm"
      by blast
    show ?thesis
    proof (cases "rl = None \<and> AutoDumpSchema db")
      case False
      with assms sel Inr lp have "r = rl" "w' = w2"
        by (auto simp: migrateBody_def split: option.splits)
      with c1 c2 km fm mc Inr show ?thesis
        by (intro exI [of _ rs] exI [of _ tm] exI [of _ "[]"]) simp
    next
      case True
      with assms sel Inr lp obtain rd where d: "DumpSchema sys db w2 = Some (rd, w')" and "r = None"
        by (auto simp: migrateBody_def split: option.splits)
      from DumpSchema_calls [OF d] obtain td where
        "calls w' = calls w2 @ td" "kinds td \<subseteq> {Probe, Conn, Table, Dump}"
        "closed td = opened td" "length (opened td) \<le> 1"
        by blast
      with c1 c2 km fm mc Inr True \<open>r = None\<close> show ?thesis
        by (intro exI [of _ rs] exI [of _ tm] exI [of _ td]) simp
    qed
  qed
qed

lemma rev_short: "length xs \<le> 1 \<Longrightarrow> rev xs = xs"
  by (cases xs) auto

lemma kinds_subset_iff: "kinds t \<subseteq> K \<longleftrightarrow> (\<forall>e \<in> set t. kindOf e \<in> K)"
  by (auto simp: kinds_def)

lemma migrateOpen_calls:
  assumes "migrateOpen sys db files w = Some (r, w')"
  shows "\<exists>t0 tm td. calls w' = calls w @ t0 @ tm @ td
     \<and> kinds t0 \<subseteq> {Conn, Table, Query}
     \<and> kinds tm \<subseteq> {ParseK, TxK, ExecK, Book}
     \<and> kinds td \<subseteq> {Probe, Conn, Table, Dump}
     \<and> execsFollowMode (useNativeEngine db) fst tm
     \<and> closed (t0 @ tm @ td) = rev (opened (t0 @ tm @ td))
     \<and> length (opened (t0 @ tm @ td)) \<le> 2
     \<and> (\<forall>c l vs. C_SelectMigrations c l (Inr vs) \<in> set t0 \<longrightarrow>
           appliedInOrder (useNativeEngine db) c (sysJoin sys (MigrationsDir db))
             (pendingFiles vs files) r tm)"
proof -
  obtain ro w1 where o: "openDatabaseForMigration sys db w = (ro, w1)"
    by (cases "openDatabaseForMigration sys db w")
  from openDatabaseForMigration_calls [OF o] show ?thesis
  proof (elim disjE exE conjE)
    fix err t
    assume f: "ro = Inl err" and c: "calls w1 = calls w @ t" and k: "kinds t \<subseteq> {Conn, Table}"
      and b: "closed t = opened t" "length (opened t) \<le> 1"
    from f assms o have "w' = w1" by (simp add: migrateOpen_def)
    moreover have "\<forall>c l vs. C_SelectMigrations c l (Inr vs) \<notin> set t"
      using k by (force simp: kinds_subset_iff)
    ultimately show ?thesis using c k b
      by (intro exI [of _ t] exI [of _ "[]"]) (auto simp: execsFollowMode_def rev_short)
  next
    fix drv c
    assume ok: "ro = Inr (drv, c)"
      and c1: "calls w1 = calls w @ [C_Open (Inr c), C_CreateMigrationsTable c None]"
    from assms o ok obtain w2 where b: "migrateBody sys db drv c files w1 = Some (r, w2)"
      and w': "w' = mustClose sys c w2"
      by (auto simp: migrateOpen_def split: option.splits)
    from migrateBody_calls [OF b] obtain rs tm td where
      c2: "calls w2 = calls w1 @ C_SelectMigrations c (- 1) rs # tm @ td"
      and km: "kinds tm \<subseteq> {ParseK, TxK, ExecK, Book}"
      and fm: "execsFollowMode (useNativeEngine db) fst tm"
      and kd: "kinds td \<subseteq> {Probe, Conn, Table, Dump}"
      and bd: "closed td = opened td" "length (opened td) \<le> 1"
      and ord: "\<forall>vs. rs = Inr vs \<longrightarrow>
           appliedInOrder (useNativeEngine db) c (sysJoin sys (MigrationsDir db))
             (pendingFiles vs files) r tm"
      by blast
    let ?t0 = "[C_Open (Inr c), C_CreateMigrationsTable c None, C_SelectMigrations c (- 1) rs]"
    from km have "Conn \<notin> kinds tm" by auto
    from no_conn [OF this] have nm: "opened tm = []" "closed tm = []" by simp_all
    have 1: "calls w' = calls w @ ?t0 @ tm @ (td @ [C_Close c])"
      using w' c1 c2 by simp
    have 2: "closed (?t0 @ tm @ (td @ [C_Close c])) = rev (opened (?t0 @ tm @ (td @ [C_Close c])))"
      using nm bd by (simp add: rev_short)
    have 3: "length (opened (?t0 @ tm @ (td @ [C_Close c]))) \<le> 2"
      using nm bd by simp
    have 4: "\<forall>c' l vs. C_SelectMigrations c' l (Inr vs) \<in> set ?t0 \<longrightarrow>
           appliedInOrder (useNativeEngine db) c' (sysJoin sys (MigrationsDir db))
             (pendingFiles vs files) r tm"
      using ord by auto
    from 1 2 3 4 km fm kd show ?thesis
      by (intro exI [of _ ?t0] exI [of _ tm] exI [of _ "td @ [C_Close c]"] conjI) simp_all
  qed
qed

lemma findMigrationFiles_calls:
  assumes "findMigrationFiles sys dir re w = (r, w')"
  shows "\<exists>rd. calls w' = calls w @ [C_ReadDir dir rd]
     \<and> (case rd of Inl err \<Rightarrow> (\<exists>err'. r = Inl err') | Inr entries \<Rightarrow> r = Inr (matchingFiles re entries))"
proof -
  obtain rd w1 where d: "ReadDir sys dir w = (rd, w1)" by (cases "ReadDir sys dir w")
  from ReadDir_calls [OF d] assms d show ?thesis
    by (intro exI [of _ rd]) (auto simp: findMigrationFiles_def matchingFiles_def split: sum.splits)
qed

lemma Migrate_calls:
  assumes "Migrate sys db w = Some (r, w')"
  shows "\<exists>t0 tm td. calls w' = calls w @ t0 @ tm @ td
     \<and> kinds t0 \<subseteq> {ListK, Probe, Conn, Table, Query}
     \<and> kinds tm \<subseteq> {ParseK, TxK, ExecK, Book}
     \<and> kinds td \<subseteq> {Probe, Conn, Table, Dump}
     \<and> execsFollowMode (useNativeEngine db) fst tm
     \<and> closed (t0 @ tm @ td) = rev (opened (t0 @ tm @ td))
     \<and> length (opened (t0 @ tm @ td)) \<le> 2
     \<and> (\<forall>d entries c l vs.
           C_ReadDir d (Inr entries) \<in> set t0 \<longrightarrow> C_SelectMigrations c l (Inr vs) \<in> set t0 \<longrightarrow>
           appliedInOrder (useNativeEngine db) c (sysJoin sys (MigrationsDir db))
             (pendingFiles vs (matchingFiles migrationFileRegexp entries)) r tm)"
proof -
  obtain rf w1 where f: "findMigrationFiles sys (MigrationsDir db) migrationFileRegexp w = (rf, w1)"
    by (cases "findMigrationFiles sys (MigrationsDir db) migrationFileRegexp w")
  from findMigrationFiles_calls [OF f] obtain rd where
    c1: "calls w1 = calls w @ [C_ReadDir (MigrationsDir db) rd]"
    and rd: "case rd of Inl err \<Rightarrow> (\<exists>err'. rf = Inl err')
             | Inr entries \<Rightarrow> rf = Inr (matchingFiles migrationFileRegexp entries)"
    by blast
  let ?rd = "C_ReadDir (MigrationsDir db) rd"
  have early: ?thesis if "w' = w1"
    using that c1
    by (intro exI [of _ "[?rd]"] exI [of _ "[]"]) (simp add: execsFollowMode_def)
  show ?thesis
  proof (cases rf)
    case (Inl err)
    with assms f have "w' = w1" by (simp add: Migrate_def)
    then show ?thesis by (rule early)
  next
    case (Inr files)
    with rd obtain entries where en: "rd = Inr entries" "files = matchingFiles migrationFileRegexp entries"
      by (cases rd) auto
    show ?thesis
    proof (cases "files = []")
      case True
      with assms f Inr have "w' = w1" by (simp add: Migrate_def)
      then show ?thesis by (rule early)
    next
      case False
      have main: ?thesis
        if mo: "migrateOpen sys db files w2 = Some (r, w')"
          and cw: "calls w2 = calls w1 @ tw" and kw: "kinds tw \<subseteq> {Probe}" for w2 tw
      proof -
        from migrateOpen_calls [OF mo] obtain t0 tm td where
          c: "calls w' = calls w2 @ t0 @ tm @ td"
          and k0: "kinds t0 \<subseteq> {Conn, Table, Query}"
          and km: "kinds tm \<subseteq> {ParseK, TxK, ExecK, Book}"
          and kd: "kinds td \<subseteq> {Probe, Conn, Table, Dump}"
          and fm: "execsFollowMode (useNativeEngine db) fst tm"
          and bal: "closed (t0 @ tm @ td) = rev (opened (t0 @ tm @ td))"
            "length (opened (t0 @ tm @ td)) \<le> 2"
          and ord: "\<forall>c l vs. C_SelectMigrations c l (Inr vs) \<in> set t0 \<longrightarrow>
             appliedInOrder (useNativeEngine db) c (sysJoin sys (MigrationsDir db))
               (pendingFiles vs files) r tm"
          by blast
        from kw have "Conn \<notin> kinds tw" by auto
        from no_conn [OF this] have nw: "opened tw = []" "closed tw = []" by simp_all
        let ?t0 = "?rd # tw @ t0"
        have 1: "calls w' = calls w @ ?t0 @ tm @ td" using c cw c1 by simp
        have 2: "kinds ?t0 \<subseteq> {ListK, Probe, Conn, Table, Query}" using kw k0 by auto
        have 3: "closed (?t0 @ tm @ td) = rev (opened (?t0 @ tm @ td))"
          "length (opened (?t0 @ tm @ td)) \<le> 2"
          using bal nw by simp_all
        have 4: "\<forall>d entries' c l vs.
           C_ReadDir d (Inr entries') \<in> set ?t0 \<longrightarrow> C_SelectMigrations c l (Inr vs) \<in> set ?t0 \<longrightarrow>
           appliedInOrder (useNativeEngine db) c (sysJoin sys (MigrationsDir db))
             (pendingFiles vs (matchingFiles migrationFileRegexp entries')) r tm"
        proof (intro allI impI)
          fix d entries' c l vs
          assume a: "C_ReadDir d (Inr entries') \<in> set ?t0"
            and b: "C_SelectMigrations c l (Inr vs) \<in> set ?t0"
          from a kw k0 have "entries' = entries"
            using en by (force simp: kinds_subset_iff)
          moreover from b kw have "C_SelectMigrations c l (Inr vs) \<in> set t0"
            by (force simp: kinds_subset_iff)
          ultimately show "appliedInOrder (useNativeEngine db) c (sysJoin sys (MigrationsDir db))
             (pendingFiles vs (matchingFiles migrationFileRegexp entries')) r tm"
            using ord en by simp
        qed
        from 1 2 3 4 km kd fm show ?thesis
          by (intro exI [of _ ?t0] exI [of _ tm] exI [of _ td] conjI)
      qed
      show ?thesis
      proof (cases "WaitBefore db")
        case nw: False
        with assms f Inr False have "migrateOpen sys db files w1 = Some (r, w')"
          by (simp add: Migrate_def)
        from main [OF this, of "[]"] show ?thesis by simp
      next
        case True
        with assms f Inr False obtain rw w2 where wt: "Wait sys db w1 = Some (rw, w2)"
          by (auto simp: Migrate_def split: option.splits)
        from Wait_kinds [OF wt] obtain tw where tw: "calls w2 = calls w1 @ tw" "kinds tw \<subseteq> {Probe}"
          by blast
        show ?thesis
        proof (cases rw)
          case None
          with assms f Inr False True wt have "migrateOpen sys db files w2 = Some (r, w')"
            by (simp add: Migrate_def)
          from main [OF this tw] show ?thesis .
        next
          case (Some err)
          with assms f Inr False True wt have "w' = w2" by (simp add: Migrate_def)
          moreover from tw have "Conn \<notin> kinds tw" by auto
          from no_conn [OF this] have "opened tw = []" "closed tw = []" by simp_all
          moreover have "\<forall>c l vs. C_SelectMigrations c l (Inr vs) \<notin> set (?rd # tw)"
            using tw by (force simp: kinds_subset_iff)
          ultimately show ?thesis using tw c1
            by (intro exI [of _ "?rd # tw"] exI [of _ "[]"]) (auto simp: execsFollowMode_def)
        qed
      qed
    qed
  qed
qed

lemma downEvent_kind: "downEvent native down latest tx e \<Longrightarrow> kindOf e = ExecK \<or> kindOf e = Book"
  by (auto simp: downEvent_def)

lemma execMigrationDown_calls:
  assumes "execMigrationDown sys drv native down latest tx w = (r, w')"
  shows "\<exists>t. calls w' = calls w @ t
     \<and> (\<forall>e \<in> set t. downEvent native down latest tx e)
     \<and> (r = None \<longrightarrow> t = scriptCalls native tx (Contents down) @ [C_DeleteMigration tx latest None])"
proof -
  obtain r1 w1 where e: "executeScript sys tx (Contents down) native w = (r1, w1)"
    by (cases "executeScript sys tx (Contents down) native w")
  from executeScript_calls [OF e] obtain t where
    t: "calls w1 = calls w @ t"
      "\<forall>e \<in> set t. \<exists>q res. e = C_Exec tx q res \<and> q \<in> set (scriptStatements native (Contents down))"
      "r1 = None \<longrightarrow> t = scriptCalls native tx (Contents down)"
    by blast
  show ?thesis
  proof (cases r1)
    case (Some err)
    with assms e have "r = Some err" "w' = w1" by (simp_all add: execMigrationDown_def)
    with t show ?thesis by (intro exI [of _ t]) (auto simp: downEvent_def)
  next
    case None
    with assms e have "DeleteMigration drv tx latest w1 = (r, w')"
      by (simp add: execMigrationDown_def)
    from DeleteMigration_calls [OF this] t None show ?thesis
      by (intro exI [of _ "t @ [C_DeleteMigration tx latest r]"]) (auto simp: downEvent_def)
  qed
qed

lemma findMigrationFile_calls:
  assumes "findMigrationFile sys dir ver w = (r, w')" and "ver \<noteq> []"
  shows "(isPanic r \<longleftrightarrow> \<not> validUTF8 (versionPattern ver)) \<and> (isPanic r \<longrightarrow> w' = w)
     \<and> (\<not> isPanic r \<longrightarrow>
          (\<exists>rd. calls w' = calls w @ [C_ReadDir dir rd]
             \<and> (\<exists>x. r = Returns x
                  \<and> (\<forall>file. x = Inr file \<longrightarrow>
                        (\<exists>entries. rd = Inr entries
                           \<and> matchingFiles (versionFileRegexp ver) entries \<noteq> []
                           \<and> file = hd (matchingFiles (versionFileRegexp ver) entries))))))"
proof (cases "validUTF8 (versionPattern ver)")
  case False
  with assms show ?thesis by (auto simp: findMigrationFile_def isPanic_def)
next
  case True
  obtain rf w1 where f: "findMigrationFiles sys dir (versionFileRegexp ver) w = (rf, w1)"
    by (cases "findMigrationFiles sys dir (versionFileRegexp ver) w")
  from findMigrationFiles_calls [OF f] obtain rd where
    c1: "calls w1 = calls w @ [C_ReadDir dir rd]"
    and rd: "case rd of Inl err \<Rightarrow> (\<exists>err'. rf = Inl err')
             | Inr entries \<Rightarrow> rf = Inr (matchingFiles (versionFileRegexp ver) entries)"
    by blast
  from assms f True have w': "w' = w1"
    by (auto simp: findMigrationFile_def split: sum.splits list.splits)
  from assms f True obtain x where x: "r = Returns x"
    by (auto simp: findMigrationFile_def split: sum.splits list.splits)
  have "\<forall>file. x = Inr file \<longrightarrow>
          (\<exists>entries. rd = Inr entries
             \<and> matchingFiles (versionFileRegexp ver) entries \<noteq> []
             \<and> file = hd (matchingFiles (versionFileRegexp ver) entries))"
    using assms f True x rd
    by (auto simp: findMigrationFile_def split: sum.splits list.splits)
  with c1 w' x True show ?thesis by (simp add: isPanic_def)
qed

lemma findMigrationFile_no_panic:
  "ver \<noteq> [] \<Longrightarrow> validUTF8 (versionPattern ver) \<Longrightarrow>
     \<not> isPanic (fst (findMigrationFile sys dir ver w))"
  by (auto simp: findMigrationFile_def isPanic_def split: prod.splits sum.splits list.splits)

lemma rollbackBody_unfold:
  "rollbackBody sys db drv sqlDB w =
     (case SelectMigrations drv sqlDB 1 w of
        (Inl err, w1) \<Rightarrow> Some (Returns (Some err), w1)
      | (Inr vs, w1) \<Rightarrow>
          if latestVersion vs = [] then
            Some (Returns (Some ''can't rollback: no migrations have been applied''), w1)
          else
            (case revertLatest sys db drv sqlDB (latestVersion vs) w1 of
               (Panic msg, w4) \<Rightarrow> Some (Panic msg, w4)
             | (Returns (Some err), w4) \<Rightarrow> Some (Returns (Some err), w4)
             | (Returns None, w4) \<Rightarrow>
                 if AutoDumpSchema db then
                   (case DumpSchema sys db w4 of
                      None \<Rightarrow> None
                    | Some (_, w5) \<Rightarrow> Some (Returns None, w5))
                 else Some (Returns None, w4)))"
  by (auto simp: rollbackBody_def revertLatest_def
      split: prod.splits sum.splits option.splits outcome.splits)

lemma revertLatest_calls:
  assumes run: "revertLatest sys db drv c latest w = (r, w')" and ne: "latest \<noteq> []"
  shows "\<exists>t. calls w' = calls w @ t
     \<and> kinds t \<subseteq> {ListK, ParseK, TxK, ExecK, Book}
     \<and> execsFollowMode (useNativeEngine db) snd t
     \<and> rolledBack (useNativeEngine db) c (MigrationsDir db) (sysJoin sys (MigrationsDir db)) latest r t"
proof -
  let ?dir = "MigrationsDir db"
  let ?native = "useNativeEngine db"
  obtain rf w1 where f: "findMigrationFile sys ?dir latest w = (rf, w1)"
    by (cases "findMigrationFile sys ?dir latest w")
  from findMigrationFile_calls [OF f ne] have
    pv: "isPanic rf \<longleftrightarrow> \<not> validUTF8 (versionPattern latest)"
    and pw: "isPanic rf \<longrightarrow> w1 = w"
    and np: "\<not> isPanic rf \<longrightarrow>
          (\<exists>rd. calls w1 = calls w @ [C_ReadDir ?dir rd]
             \<and> (\<exists>x. rf = Returns x
                  \<and> (\<forall>file. x = Inr file \<longrightarrow>
                        (\<exists>entries. rd = Inr entries
                           \<and> matchingFiles (versionFileRegexp latest) entries \<noteq> []
                           \<and> file = hd (matchingFiles (versionFileRegexp latest) entries)))))"
    by blast+
  show ?thesis
  proof (cases "isPanic rf")
    case True
    then obtain msg where m: "rf = Panic msg" by (cases rf) (simp_all add: isPanic_def)
    with run f have "r = Panic msg" "w' = w1" by (simp_all add: revertLatest_def)
    with pw pv True show ?thesis
      by (intro exI [of _ "[]"]) (simp add: execsFollowMode_def rolledBack_def isPanic_def)
  next
    case noPanic: False
    with pv have valid: "validUTF8 (versionPattern latest)" by simp
    from np noPanic obtain rd x where
      c1: "calls w1 = calls w @ [C_ReadDir ?dir rd]"
      and x: "rf = Returns x"
      and found: "\<forall>file. x = Inr file \<longrightarrow>
                (\<exists>entries. rd = Inr entries \<and> matchingFiles (versionFileRegexp latest) entries \<noteq> []
                   \<and> file = hd (matchingFiles (versionFileRegexp latest) entries))"
      by blast
    show ?thesis
    proof (cases x)
      case (Inl err)
      with run f x have "r = Returns (Some err)" "w' = w1" by (simp_all add: revertLatest_def)
      with c1 valid show ?thesis
        by (intro exI [of _ "[C_ReadDir ?dir rd]"])
          (simp add: execsFollowMode_def rolledBack_def isPanic_def)
    next
      case (Inr name)
      with found obtain entries where en: "rd = Inr entries"
        "matchingFiles (versionFileRegexp latest) entries \<noteq> []"
        "name = hd (matchingFiles (versionFileRegexp latest) entries)"
        by blast
      let ?p = "sysJoin sys ?dir name"
      obtain pr w2 where p: "parseMigration sys ?p (Print (''Rolling back: '' @ name @ [nl]) w1) = (pr, w2)"
        by (cases "parseMigration sys ?p (Print (''Rolling back: '' @ name @ [nl]) w1)")
      from parseMigration_calls [OF p] c1
      have c2: "calls w2 = calls w @ [C_ReadDir ?dir rd, C_ParseMigration ?p pr]"
        by simp
      show ?thesis
      proof (cases pr)
        case (Inl err)
        with run f x Inr p have "r = Returns (Some err)" "w' = w2"
          by (simp_all add: revertLatest_def)
        with c2 en valid show ?thesis
          by (intro exI [of _ "[C_ReadDir ?dir rd, C_ParseMigration ?p pr]"])
            (simp add: execsFollowMode_def rolledBack_def isPanic_def)
      next
        case ud: (Inr ud)
        obtain up down where udd: "ud = (up, down)" by (cases ud)
        let ?run = "if OptionsTransaction down then
                      doTransaction sys c (execMigrationDown sys drv ?native down latest) w2
                    else execMigrationDown sys drv ?native down latest (OnDB c) w2"
        obtain r0 w4 where rn: "?run = (r0, w4)" by (cases ?run)
        with run f x Inr p ud udd have r: "r = Returns r0" and w4: "w4 = w'"
          by (simp_all add: revertLatest_def)
        have body: "\<exists>t. calls w' = calls w2 @ t
            \<and> (\<forall>e \<in> set t. kindOf e = TxK \<or> (\<exists>tx. downEvent ?native down latest tx e))
            \<and> (r0 = None \<longrightarrow> (\<exists>tx.
                  t = (if OptionsTransaction down then
                         C_Begin c (Inr tx) # scriptCalls ?native (OnTx tx) (Contents down)
                           @ [C_DeleteMigration (OnTx tx) latest None, C_Commit tx None]
                       else
                         scriptCalls ?native (OnDB c) (Contents down)
                           @ [C_DeleteMigration (OnDB c) latest None])))"
        proof (cases "OptionsTransaction down")
          case True
          with rn w4 have
            "doTransaction sys c (execMigrationDown sys drv ?native down latest) w2 = (r0, w')"
            by simp
          from doTransaction_calls [OF this, where P = "\<lambda>tx. downEvent ?native down latest (OnTx tx)"
              and ok = "\<lambda>tx. scriptCalls ?native (OnTx tx) (Contents down)
                          @ [C_DeleteMigration (OnTx tx) latest None]"]
            execMigrationDown_calls
          obtain t where "calls w' = calls w2 @ t"
            "\<forall>e \<in> set t. kindOf e = TxK \<or> (\<exists>tx. downEvent ?native down latest (OnTx tx) e)"
            "r0 = None \<longrightarrow> (\<exists>tx. t = C_Begin c (Inr tx)
                # (scriptCalls ?native (OnTx tx) (Contents down) @ [C_DeleteMigration (OnTx tx) latest None])
                @ [C_Commit tx None])"
            by blast
          with True show ?thesis by (intro exI [of _ t]) auto
        next
          case False
          with rn w4 have
            "execMigrationDown sys drv ?native down latest (OnDB c) w2 = (r0, w')"
            by simp
          from execMigrationDown_calls [OF this] obtain t where "calls w' = calls w2 @ t"
            "\<forall>e \<in> set t. downEvent ?native down latest (OnDB c) e"
            "r0 = None \<longrightarrow> t = scriptCalls ?native (OnDB c) (Contents down)
                @ [C_DeleteMigration (OnDB c) latest None]"
            by blast
          with False show ?thesis by (intro exI [of _ t]) auto
        qed
        then obtain t where
          c3: "calls w' = calls w2 @ t"
          and ev: "\<forall>e \<in> set t. kindOf e = TxK \<or> (\<exists>tx. downEvent ?native down latest tx e)"
          and ok: "r0 = None \<longrightarrow> (\<exists>tx.
                  t = (if OptionsTransaction down then
                         C_Begin c (Inr tx) # scriptCalls ?native (OnTx tx) (Contents down)
                           @ [C_DeleteMigration (OnTx tx) latest None, C_Commit tx None]
                       else
                         scriptCalls ?native (OnDB c) (Contents down)
                           @ [C_DeleteMigration (OnDB c) latest None]))"
          by blast
        let ?t = "[C_ReadDir ?dir rd, C_ParseMigration ?p pr] @ t"
        have 1: "calls w' = calls w @ ?t" using c2 c3 by simp
        from ev have kt: "kinds t \<subseteq> {TxK, ExecK, Book}"
          by (auto simp: kinds_def dest: downEvent_kind)
        then have 2: "kinds ?t \<subseteq> {ListK, ParseK, TxK, ExecK, Book}" by auto
        have 3: "execsFollowMode ?native snd ?t"
          unfolding execsFollowMode_def
        proof (intro allI impI)
          fix tx q res
          assume "C_Exec tx q res \<in> set ?t"
          then have "C_Exec tx q res \<in> set t" by simp
          with ev have "q \<in> set (scriptStatements ?native (Contents down))"
            by (auto simp: downEvent_def)
          with ud udd show "\<exists>p ud. C_ParseMigration p (Inr ud) \<in> set ?t
               \<and> q \<in> set (scriptStatements ?native (Contents (snd ud)))"
            by (intro exI [of _ ?p] exI [of _ "(up, down)"]) simp
        qed
        have pn: "isPanic r \<longleftrightarrow> \<not> validUTF8 (versionPattern latest)"
          using r valid by (simp add: isPanic_def)
        have pe: "isPanic r \<longrightarrow> ?t = []"
          using r by (simp add: isPanic_def)
        have del: "\<forall>tx v res. C_DeleteMigration tx v res \<in> set ?t \<longrightarrow> v = latest"
          using ev by (auto simp: downEvent_def)
        have ins: "\<forall>tx v res. C_InsertMigration tx v res \<notin> set ?t"
          using ev by (auto simp: downEvent_def)
        have par: "\<forall>p pr'. C_ParseMigration p pr' \<in> set ?t \<longrightarrow>
            (\<exists>entries. C_ReadDir ?dir (Inr entries) \<in> set ?t
               \<and> matchingFiles (versionFileRegexp latest) entries \<noteq> []
               \<and> p = sysJoin sys ?dir (hd (matchingFiles (versionFileRegexp latest) entries)))"
        proof (intro allI impI)
          fix p pr'
          assume "C_ParseMigration p pr' \<in> set ?t"
          with kt have "p = ?p" by (force simp: kinds_subset_iff)
          with en show "\<exists>entries. C_ReadDir ?dir (Inr entries) \<in> set ?t
               \<and> matchingFiles (versionFileRegexp latest) entries \<noteq> []
               \<and> p = sysJoin sys ?dir (hd (matchingFiles (versionFileRegexp latest) entries))"
            by (intro exI [of _ entries]) simp
        qed
        have suc: "r = Returns None \<longrightarrow>
            (\<exists>entries up down tx. matchingFiles (versionFileRegexp latest) entries \<noteq> []
               \<and> ?t = rollbackCalls ?native c ?dir (sysJoin sys ?dir) latest entries up down tx)"
        proof
          assume "r = Returns None"
          with r have "r0 = None" by simp
          with ok obtain tx where "t = (if OptionsTransaction down then
                         C_Begin c (Inr tx) # scriptCalls ?native (OnTx tx) (Contents down)
                           @ [C_DeleteMigration (OnTx tx) latest None, C_Commit tx None]
                       else
                         scriptCalls ?native (OnDB c) (Contents down)
                           @ [C_DeleteMigration (OnDB c) latest None])"
            by blast
          with en ud udd show "\<exists>entries up down tx. matchingFiles (versionFileRegexp latest) entries \<noteq> []
               \<and> ?t = rollbackCalls ?native c ?dir (sysJoin sys ?dir) latest entries up down tx"
            by (intro exI [of _ entries] exI [of _ up] exI [of _ down] exI [of _ tx])
              (simp add: rollbackCalls_def)
        qed
        from pn pe del ins par suc
        have 4: "rolledBack ?native c ?dir (sysJoin sys ?dir) latest r ?t"
          unfolding rolledBack_def by (intro conjI)
        from 1 2 3 4 show ?thesis by (intro exI [of _ ?t] conjI)
      qed
    qed
  qed
qed

lemma rollbackBody_calls:
  assumes "rollbackBody sys db drv c w = Some (r, w')"
  shows "\<exists>rs tm td. calls w' = calls w @ C_SelectMigrations c 1 rs # tm @ td
     \<and> kinds tm \<subseteq> {ListK, ParseK, TxK, ExecK, Book}
     \<and> execsFollowMode (useNativeEngine db) snd tm
     \<and> kinds td \<subseteq> {Probe, Conn, Table, Dump}
     \<and> closed td = opened td \<and> length (opened td) \<le> 1
     \<and> (\<forall>vs. rs = Inr vs \<longrightarrow>
           (latestVersion vs = [] \<longrightarrow>
              tm = [] \<and> td = []
              \<and> r = Returns (Some ''can't rollback: no migrations have been applied''))
           \<and> (latestVersion vs \<noteq> [] \<longrightarrow>
                rolledBack (useNativeEngine db) c (MigrationsDir db)
                  (sysJoin sys (MigrationsDir db)) (latestVersion vs) r tm
                \<and> (isPanic r \<longrightarrow> td = [])))"
proof -
  obtain rs w1 where sel: "SelectMigrations drv c 1 w = (rs, w1)"
    by (cases "SelectMigrations drv c 1 w")
  note c1 = SelectMigrations_calls [OF sel]
  show ?thesis
  proof (cases rs)
    case (Inl err)
    with assms sel have "w' = w1" by (simp add: rollbackBody_unfold)
    with c1 Inl show ?thesis
      by (intro exI [of _ rs] exI [of _ "[]"]) (simp add: execsFollowMode_def)
  next
    case (Inr vs)
    show ?thesis
    proof (cases "latestVersion vs = []")
      case True
      with assms sel Inr have "w' = w1"
        "r = Returns (Some ''can't rollback: no migrations have been applied'')"
        by (simp_all add: rollbackBody_unfold)
      with c1 Inr True show ?thesis
        by (intro exI [of _ rs] exI [of _ "[]"]) (simp add: execsFollowMode_def)
    next
      case False
      obtain rl w2 where rv: "revertLatest sys db drv c (latestVersion vs) w1 = (rl, w2)"
        by (cases "revertLatest sys db drv c (latestVersion vs) w1")
      from revertLatest_calls [OF rv False] obtain tm where
        c2: "calls w2 = calls w1 @ tm"
        and km: "kinds tm \<subseteq> {ListK, ParseK, TxK, ExecK, Book}"
        and fm: "execsFollowMode (useNativeEngine db) snd tm"
        and rb: "rolledBack (useNativeEngine db) c (MigrationsDir db)
                  (sysJoin sys (MigrationsDir db)) (latestVersion vs) rl tm"
        by blast
      show ?thesis
      proof (cases "rl = Returns None \<and> AutoDumpSchema db")
        case nd: False
        with assms sel Inr False rv have "r = rl" "w' = w2"
          by (auto simp: rollbackBody_unfold split: option.splits outcome.splits)
        with c1 c2 km fm rb Inr False show ?thesis
          by (intro exI [of _ rs] exI [of _ tm] exI [of _ "[]"]) simp
      next
        case True
        with assms sel Inr False rv obtain rd where d: "DumpSchema sys db w2 = Some (rd, w')"
          and "r = Returns None"
          by (auto simp: rollbackBody_unfold split: option.splits)
        from DumpSchema_calls [OF d] obtain td where
          "calls w' = calls w2 @ td" "kinds td \<subseteq> {Probe, Conn, Table, Dump}"
          "closed td = opened td" "length (opened td) \<le> 1"
          by blast
        with c1 c2 km fm rb Inr False True \<open>r = Returns None\<close> show ?thesis
          by (intro exI [of _ rs] exI [of _ tm] exI [of _ td]) (simp add: isPanic_def)
      qed
    qed
  qed
qed

lemma rollbackOpen_calls:
  assumes "rollbackOpen sys db w = Some (r, w')"
  shows "\<exists>t0 tm td. calls w' = calls w @ t0 @ tm @ td
     \<and> kinds t0 \<subseteq> {Conn, Table, Query}
     \<and> kinds tm \<subseteq> {ListK, ParseK, TxK, ExecK, Book}
     \<and> kinds td \<subseteq> {Probe, Conn, Table, Dump}
     \<and> execsFollowMode (useNativeEngine db) snd tm
     \<and> closed (t0 @ tm @ td) = rev (opened (t0 @ tm @ td))
     \<and> length (opened (t0 @ tm @ td)) \<le> 2
     \<and> (\<forall>c l rs. C_SelectMigrations c l rs \<in> set t0 \<longrightarrow> l = 1)
     \<and> (\<forall>c l vs. C_SelectMigrations c l (Inr vs) \<in> set t0 \<longrightarrow> afterQuery sys db c vs r tm td)"
proof -
  obtain ro w1 where o: "openDatabaseForMigration sys db w = (ro, w1)"
    by (cases "openDatabaseForMigration sys db w")
  from openDatabaseForMigration_calls [OF o] show ?thesis
  proof (elim disjE exE conjE)
    fix err t
    assume f: "ro = Inl err" and c: "calls w1 = calls w @ t" and k: "kinds t \<subseteq> {Conn, Table}"
      and b: "closed t = opened t" "length (opened t) \<le> 1"
    from f assms o have "w' = w1" by (simp add: rollbackOpen_def)
    moreover have "\<forall>c l rs. C_SelectMigrations c l rs \<notin> set t"
      using k by (force simp: kinds_subset_iff)
    ultimately show ?thesis using c k b
      by (intro exI [of _ t] exI [of _ "[]"]) (auto simp: execsFollowMode_def rev_short)
  next
    fix drv c
    assume ok: "ro = Inr (drv, c)"
      and c1: "calls w1 = calls w @ [C_Open (Inr c), C_CreateMigrationsTable c None]"
    from assms o ok obtain w2 where b: "rollbackBody sys db drv c w1 = Some (r, w2)"
      and w': "w' = mustClose sys c w2"
      by (auto simp: rollbackOpen_def split: option.splits)
    from rollbackBody_calls [OF b] obtain rs tm td where
      c2: "calls w2 = calls w1 @ C_SelectMigrations c 1 rs # tm @ td"
      and km: "kinds tm \<subseteq> {ListK, ParseK, TxK, ExecK, Book}"
      and fm: "execsFollowMode (useNativeEngine db) snd tm"
      and kd: "kinds td \<subseteq> {Probe, Conn, Table, Dump}"
      and bd: "closed td = opened td" "length (opened td) \<le> 1"
      and q: "\<forall>vs. rs = Inr vs \<longrightarrow>
           (latestVersion vs = [] \<longrightarrow>
              tm = [] \<and> td = []
              \<and> r = Returns (Some ''can't rollback: no migrations have been applied''))
           \<and> (latestVersion vs \<noteq> [] \<longrightarrow>
                rolledBack (useNativeEngine db) c (MigrationsDir db)
                  (sysJoin sys (MigrationsDir db)) (latestVersion vs) r tm
                \<and> (isPanic r \<longrightarrow> td = []))"
      by (elim exE conjE) (rule that; assumption)
    let ?t0 = "[C_Open (Inr c), C_CreateMigrationsTable c None, C_SelectMigrations c 1 rs]"
    from km have "Conn \<notin> kinds tm" by auto
    from no_conn [OF this] have nm: "opened tm = []" "closed tm = []" by simp_all
    have 1: "calls w' = calls w @ ?t0 @ tm @ (td @ [C_Close c])"
      using w' c1 c2 by simp
    have 2: "closed (?t0 @ tm @ (td @ [C_Close c])) = rev (opened (?t0 @ tm @ (td @ [C_Close c])))"
      using nm bd by (simp add: rev_short)
    have 3: "length (opened (?t0 @ tm @ (td @ [C_Close c]))) \<le> 2"
      using nm bd by simp
    have 4: "\<forall>c' l rs'. C_SelectMigrations c' l rs' \<in> set ?t0 \<longrightarrow> l = 1"
      by simp
    have 5: "\<forall>c' l vs. C_SelectMigrations c' l (Inr vs) \<in> set ?t0 \<longrightarrow>
        afterQuery sys db c' vs r tm (td @ [C_Close c])"
      using q by (auto simp: afterQuery_def)
    from 1 2 3 4 5 km fm kd show ?thesis
      by (intro exI [of _ ?t0] exI [of _ tm] exI [of _ "td @ [C_Close c]"] conjI) simp_all
  qed
qed

lemma Rollback_calls:
  assumes "Rollback sys db w = Some (r, w')"
  shows "\<exists>t0 tm td. calls w' = calls w @ t0 @ tm @ td
     \<and> kinds t0 \<subseteq> {Probe, Conn, Table, Query}
     \<and> kinds tm \<subseteq> {ListK, ParseK, TxK, ExecK, Book}
     \<and> kinds td \<subseteq> {Probe, Conn, Table, Dump}
     \<and> execsFollowMode (useNativeEngine db) snd tm
     \<and> closed (t0 @ tm @ td) = rev (opened (t0 @ tm @ td))
     \<and> length (opened (t0 @ tm @ td)) \<le> 2
     \<and> (\<forall>c l rs. C_SelectMigrations c l rs \<in> set t0 \<longrightarrow> l = 1)
     \<and> (\<forall>c l vs. C_SelectMigrations c l (Inr vs) \<in> set t0 \<longrightarrow> afterQuery sys db c vs r tm td)"
proof -
  have main: ?thesis
    if ro: "rollbackOpen sys db w2 = Some (r, w')"
      and cw: "calls w2 = calls w @ tw" and kw: "kinds tw \<subseteq> {Probe}" for w2 tw
  proof -
    from rollbackOpen_calls [OF ro] obtain t0 tm td where
      c: "calls w' = calls w2 @ t0 @ tm @ td"
      and k0: "kinds t0 \<subseteq> {Conn, Table, Query}"
      and km: "kinds tm \<subseteq> {ListK, ParseK, TxK, ExecK, Book}"
      and kd: "kinds td \<subseteq> {Probe, Conn, Table, Dump}"
      and fm: "execsFollowMode (useNativeEngine db) snd tm"
      and bal: "closed (t0 @ tm @ td) = rev (opened (t0 @ tm @ td))"
        "length (opened (t0 @ tm @ td)) \<le> 2"
      and lim: "\<forall>c l rs. C_SelectMigrations c l rs \<in> set t0 \<longrightarrow> l = 1"
      and aq: "\<forall>c l vs. C_SelectMigrations c l (Inr vs) \<in> set t0 \<longrightarrow> afterQuery sys db c vs r tm td"
      by blast
    from kw have "Conn \<notin> kinds tw" by auto
    from no_conn [OF this] have nw: "opened tw = []" "closed tw = []" by simp_all
    have sel: "C_SelectMigrations c l rs \<in> set (tw @ t0) \<Longrightarrow> C_SelectMigrations c l rs \<in> set t0"
      for c l rs
      using kw by (force simp: kinds_subset_iff)
    have 1: "calls w' = calls w @ (tw @ t0) @ tm @ td" using c cw by simp
    have 2: "kinds (tw @ t0) \<subseteq> {Probe, Conn, Table, Query}" using kw k0 by auto
    have 3: "closed ((tw @ t0) @ tm @ td) = rev (opened ((tw @ t0) @ tm @ td))"
      "length (opened ((tw @ t0) @ tm @ td)) \<le> 2"
      using bal nw by simp_all
    have 4: "\<forall>c l rs. C_SelectMigrations c l rs \<in> set (tw @ t0) \<longrightarrow> l = 1"
      using lim sel by blast
    have 5: "\<forall>c l vs. C_SelectMigrations c l (Inr vs) \<in> set (tw @ t0) \<longrightarrow>
        afterQuery sys db c vs r tm td"
      using aq sel by blast
    from 1 2 3 4 5 km kd fm show ?thesis
      by (intro exI [of _ "tw @ t0"] exI [of _ tm] exI [of _ td] conjI)
  qed
  show ?thesis
  proof (cases "WaitBefore db")
    case False
    with assms have "rollbackOpen sys db w = Some (r, w')" by (simp add: Rollback_def)
    from main [OF this, of "[]"] show ?thesis by simp
  next
    case True
    with assms obtain rw w2 where wt: "Wait sys db w = Some (rw, w2)"
      by (auto simp: Rollback_def split: option.splits)
    from Wait_kinds [OF wt] obtain tw where tw: "calls w2 = calls w @ tw" "kinds tw \<subseteq> {Probe}"
      by blast
    show ?thesis
    proof (cases rw)
      case None
      with assms True wt have "rollbackOpen sys db w2 = Some (r, w')" by (simp add: Rollback_def)
      from main [OF this tw] show ?thesis .
    next
      case (Some err)
      with assms True wt have "w' = w2" by (simp add: Rollback_def)
      moreover from tw have "Conn \<notin> kinds tw" by auto
      from no_conn [OF this] have "opened tw = []" "closed tw = []" by simp_all
      moreover have "\<forall>c l rs. C_SelectMigrations c l rs \<notin> set tw"
        using tw by (force simp: kinds_subset_iff)
      ultimately show ?thesis using tw
        by (intro exI [of _ tw] exI [of _ "[]"]) (auto simp: execsFollowMode_def)
    qed
  qed
qed

lemmas engine_defs = Migrate_def migrateOpen_def migrateBody_def findMigrationFiles_def
  openDatabaseForMigration_def doTransaction_def execMigrationUp_def executeScript_def
  useNativeEngine_def DumpSchema_def dumpSchemaOpen_def dumpSchemaBody_def
  Rollback_def rollbackOpen_def rollbackBody_def findMigrationFile_def execMigrationDown_def
  latestVersion_def Status_def checkMigrationsStatus_def


subsection \<open>C9: connections\<close>

lemma statusLoop_calls: "statusLoop quiet rs a w = (n, w') \<Longrightarrow> calls w' = calls w"
  by (induction rs arbitrary: a w) (auto split: if_splits)

lemma checkMigrationsStatus_calls:
  assumes "checkMigrationsStatus sys db w = (r, w')"
  shows "\<exists>t. calls w' = calls w @ t \<and> closed t = opened t \<and> length (opened t) \<le> 1"
proof -
  obtain rf w1 where f: "findMigrationFiles sys (MigrationsDir db) migrationFileRegexp w = (rf, w1)"
    by (cases "findMigrationFiles sys (MigrationsDir db) migrationFileRegexp w")
  from findMigrationFiles_calls [OF f] obtain rd where
    c1: "calls w1 = calls w @ [C_ReadDir (MigrationsDir db) rd]"
    by blast
  show ?thesis
  proof (cases "\<exists>files. rf = Inr files \<and> files \<noteq> []")
    case False
    with assms f have "w' = w1"
      by (cases rf) (auto simp: checkMigrationsStatus_def)
    with c1 show ?thesis by (intro exI [of _ "[C_ReadDir (MigrationsDir db) rd]"]) simp
  next
    case True
    then obtain files where fl: "rf = Inr files" "files \<noteq> []" by blast
    obtain ro w2 where o: "openDatabaseForMigration sys db w1 = (ro, w2)"
      by (cases "openDatabaseForMigration sys db w1")
    from openDatabaseForMigration_calls [OF o] show ?thesis
    proof (elim disjE exE conjE)
      fix err t
      assume "ro = Inl err" "calls w2 = calls w1 @ t" "closed t = opened t" "length (opened t) \<le> 1"
      moreover from this assms f fl o have "w' = w2" by (simp add: checkMigrationsStatus_def)
      ultimately show ?thesis using c1
        by (intro exI [of _ "C_ReadDir (MigrationsDir db) rd # t"]) simp
    next
      fix drv c
      assume ok: "ro = Inr (drv, c)"
        and c2: "calls w2 = calls w1 @ [C_Open (Inr c), C_CreateMigrationsTable c None]"
      obtain rs w3 where sel: "SelectMigrations drv c (- 1) w2 = (rs, w3)"
        by (cases "SelectMigrations drv c (- 1) w2")
      with assms f fl o ok have "w' = mustClose sys c w3"
        by (cases rs) (simp_all add: checkMigrationsStatus_def)
      with SelectMigrations_calls [OF sel] c1 c2 show ?thesis
        by (intro exI [of _ "[C_ReadDir (MigrationsDir db) rd, C_Open (Inr c),
              C_CreateMigrationsTable c None, C_SelectMigrations c (- 1) rs, C_Close c]"]) simp
    qed
  qed
qed

lemma Status_calls:
  assumes "Status sys db quiet w = (r, w')"
  shows "\<exists>t. calls w' = calls w @ t \<and> closed t = opened t \<and> length (opened t) \<le> 1"
proof -
  obtain rc w1 where c: "checkMigrationsStatus sys db w = (rc, w1)"
    by (cases "checkMigrationsStatus sys db w")
  from assms c have "calls w' = calls w1"
    by (cases rc) (auto simp: Status_def split: prod.splits if_splits dest: statusLoop_calls)
  with checkMigrationsStatus_calls [OF c] show ?thesis by simp
qed

text \<open>
  C9, as amended. Every operation that returns has closed each connection it opened,
  whatever it returns: the connections closed are the connections opened, the last
  opened first. \<open>DumpSchema\<close> and \<open>Status\<close> open at most one connection; \<open>Migrate\<close>
  and \<open>Rollback\<close> open at most two, the second one for the schema dump that follows a
  success.
\<close>

theorem connections_closed:
  "(Migrate sys db w = Some (r, w') \<longrightarrow>
      closed (since w w') = rev (opened (since w w')) \<and> length (opened (since w w')) \<le> 2)
   \<and> (Rollback sys db w = Some (ro, w') \<longrightarrow>
      closed (since w w') = rev (opened (since w w')) \<and> length (opened (since w w')) \<le> 2)
   \<and> (DumpSchema sys db w = Some (r, w') \<longrightarrow>
      closed (since w w') = opened (since w w') \<and> length (opened (since w w')) \<le> 1)
   \<and> (Status sys db quiet w = (rs, w') \<longrightarrow>
      closed (since w w') = opened (since w w') \<and> length (opened (since w w')) \<le> 1)"
proof (intro conjI impI)
  assume "Migrate sys db w = Some (r, w')"
  from Migrate_calls [OF this] obtain t0 tm td where
    "calls w' = calls w @ t0 @ tm @ td"
    "closed (t0 @ tm @ td) = rev (opened (t0 @ tm @ td))" "length (opened (t0 @ tm @ td)) \<le> 2"
    by blast
  then show "closed (since w w') = rev (opened (since w w'))" "length (opened (since w w')) \<le> 2"
    by simp_all
next
  assume "Rollback sys db w = Some (ro, w')"
  from Rollback_calls [OF this] obtain t0 tm td where
    "calls w' = calls w @ t0 @ tm @ td"
    "closed (t0 @ tm @ td) = rev (opened (t0 @ tm @ td))" "length (opened (t0 @ tm @ td)) \<le> 2"
    by blast
  then show "closed (since w w') = rev (opened (since w w'))" "length (opened (since w w')) \<le> 2"
    by simp_all
next
  assume "DumpSchema sys db w = Some (r, w')"
  from DumpSchema_calls [OF this] obtain t where
    "calls w' = calls w @ t" "closed t = opened t" "length (opened t) \<le> 1"
    by blast
  then show "closed (since w w') = opened (since w w')" "length (opened (since w w')) \<le> 1"
    by simp_all
next
  assume "Status sys db quiet w = (rs, w')"
  from Status_calls [OF this] obtain t where
    "calls w' = calls w @ t" "closed t = opened t" "length (opened t) \<le> 1"
    by blast
  then show "closed (since w w') = opened (since w w')" "length (opened (since w w')) \<le> 1"
    by simp_all
qed

theorem connections_closed_witness:
  "(\<exists>w'. Migrate simSys simDB (start fixtureApplied) = Some (None, w')
      \<and> closed (since (start fixtureApplied) w') = rev (opened (since (start fixtureApplied) w'))
      \<and> length (opened (since (start fixtureApplied) w')) \<le> 2)
   \<and> (\<exists>w'. Rollback simSys simDB (start fixtureApplied) = Some (Returns None, w')
      \<and> closed (since (start fixtureApplied) w') = rev (opened (since (start fixtureApplied) w'))
      \<and> length (opened (since (start fixtureApplied) w')) \<le> 2)
   \<and> (\<exists>w'. DumpSchema simSys simDB (start fixtureApplied) = Some (None, w')
      \<and> closed (since (start fixtureApplied) w') = opened (since (start fixtureApplied) w')
      \<and> length (opened (since (start fixtureApplied) w')) \<le> 1)
   \<and> (\<exists>w'. Status simSys simDB True (start fixtureApplied) = ((0, None), w')
      \<and> closed (since (start fixtureApplied) w') = opened (since (start fixtureApplied) w')
      \<and> length (opened (since (start fixtureApplied) w')) \<le> 1)"
proof -
  obtain w1 where 1: "Migrate simSys simDB (start fixtureApplied) = Some (None, w1)"
    by (simp add: engine_defs sim_defs call_defs name_defs fixtureApplied_def)
  obtain w2 where 2: "Rollback simSys simDB (start fixtureApplied) = Some (Returns None, w2)"
    by (simp add: engine_defs sim_defs call_defs name_defs fixtureApplied_def matchTail_def)
  obtain w3 where 3: "DumpSchema simSys simDB (start fixtureApplied) = Some (None, w3)"
    by (simp add: engine_defs sim_defs call_defs name_defs fixtureApplied_def)
  obtain w4 where 4: "Status simSys simDB True (start fixtureApplied) = ((0, None), w4)"
    by (simp add: engine_defs sim_defs call_defs name_defs fixtureApplied_def)
  from 1 connections_closed [where sys = simSys and db = simDB and w = "start fixtureApplied"
      and r = None and w' = w1]
  have a: "\<exists>w'. Migrate simSys simDB (start fixtureApplied) = Some (None, w')
      \<and> closed (since (start fixtureApplied) w') = rev (opened (since (start fixtureApplied) w'))
      \<and> length (opened (since (start fixtureApplied) w')) \<le> 2"
    by blast
  from 2 connections_closed [where sys = simSys and db = simDB and w = "start fixtureApplied"
      and ro = "Returns None" and w' = w2]
  have b: "\<exists>w'. Rollback simSys simDB (start fixtureApplied) = Some (Returns None, w')
      \<and> closed (since (start fixtureApplied) w') = rev (opened (since (start fixtureApplied) w'))
      \<and> length (opened (since (start fixtureApplied) w')) \<le> 2"
    by blast
  from 3 connections_closed [where sys = simSys and db = simDB and w = "start fixtureApplied"
      and r = None and w' = w3]
  have c: "\<exists>w'. DumpSchema simSys simDB (start fixtureApplied) = Some (None, w')
      \<and> closed (since (start fixtureApplied) w') = opened (since (start fixtureApplied) w')
      \<and> length (opened (since (start fixtureApplied) w')) \<le> 1"
    by blast
  from 4 connections_closed [where sys = simSys and db = simDB and w = "start fixtureApplied"
      and w' = w4 and quiet = True and rs = "(0, None)"]
  have d: "\<exists>w'. Status simSys simDB True (start fixtureApplied) = ((0, None), w')
      \<and> closed (since (start fixtureApplied) w') = opened (since (start fixtureApplied) w')
      \<and> length (opened (since (start fixtureApplied) w')) \<le> 1"
    by blast
  from a b c d show ?thesis by (intro conjI)
qed


text \<open>
  The claim as stated fails: with \<open>AutoDumpSchema\<close> set, a \<open>Migrate\<close> that succeeds
  opens a second connection for the schema dump while its own is still open.
\<close>

theorem two_connections_counterexample:
  "returned (Migrate simSys simDB (start fixtureApplied)) = Some None
   \<and> connections (callsOf (Migrate simSys simDB (start fixtureApplied)))
       = [C_Open (Inr 0), C_Open (Inr 1), C_Close 1, C_Close 0]"
  by (simp add: engine_defs sim_defs call_defs name_defs fixtureApplied_def
      returned_def callsOf_def connections_def)

subsection \<open>C10: native and emulated execution\<close>

lemma execsFollowMode_mid:
  assumes "execsFollowMode native section tm" "ExecK \<notin> kinds t0" "ExecK \<notin> kinds td"
  shows "execsFollowMode native section (t0 @ tm @ td)"
  using assms(1) execsFollowMode_no_exec [OF assms(2)] execsFollowMode_no_exec [OF assms(3)]
  by (intro execsFollowMode_append)

text \<open>
  C10. Let \<open>native\<close> hold when \<open>NativeEngine\<close> is set and the scheme of the URL is
  not \<open>oracle\<close>. Every statement \<open>Migrate\<close> executes is then the whole up script of a
  file it parsed; otherwise (for an Oracle URL, whatever \<open>NativeEngine\<close> is, and
  whenever \<open>NativeEngine\<close> is off) it is one of the statements \<open>parseStatements\<close>
  splits such a script into. The same holds for \<open>Rollback\<close> and the down script.
\<close>

theorem engine_mode:
  "(Migrate sys db w = Some (r, w') \<longrightarrow>
      execsFollowMode (NativeEngine db \<and> Scheme (DatabaseURL db) \<noteq> ''oracle'') fst (since w w'))
   \<and> (Rollback sys db w = Some (ro, w') \<longrightarrow>
      execsFollowMode (NativeEngine db \<and> Scheme (DatabaseURL db) \<noteq> ''oracle'') snd (since w w'))"
proof (intro conjI impI)
  assume "Migrate sys db w = Some (r, w')"
  from Migrate_calls [OF this] obtain t0 tm td where
    c: "calls w' = calls w @ t0 @ tm @ td"
    and k: "kinds t0 \<subseteq> {ListK, Probe, Conn, Table, Query}" "kinds td \<subseteq> {Probe, Conn, Table, Dump}"
    and f: "execsFollowMode (useNativeEngine db) fst tm"
    by blast
  from k have "ExecK \<notin> kinds t0" "ExecK \<notin> kinds td" by auto
  from execsFollowMode_mid [OF f this] c
  show "execsFollowMode (NativeEngine db \<and> Scheme (DatabaseURL db) \<noteq> ''oracle'') fst (since w w')"
    by (simp add: useNativeEngine_def)
next
  assume "Rollback sys db w = Some (ro, w')"
  from Rollback_calls [OF this] obtain t0 tm td where
    c: "calls w' = calls w @ t0 @ tm @ td"
    and k: "kinds t0 \<subseteq> {Probe, Conn, Table, Query}" "kinds td \<subseteq> {Probe, Conn, Table, Dump}"
    and f: "execsFollowMode (useNativeEngine db) snd tm"
    by blast
  from k have "ExecK \<notin> kinds t0" "ExecK \<notin> kinds td" by auto
  from execsFollowMode_mid [OF f this] c
  show "execsFollowMode (NativeEngine db \<and> Scheme (DatabaseURL db) \<noteq> ''oracle'') snd (since w w')"
    by (simp add: useNativeEngine_def)
qed

lemmas fixture_defs = fixtureTables_def tablesUp_def tablesDown_def oracleDB_def

lemma Migrate_oracle:
  "\<exists>w'. Migrate simSys oracleDB (start fixtureTables) = Some (None, w')
      \<and> executed (ext w') = [''create table a (id int)'', '' create table b (id int)'']"
  by (simp add: engine_defs sim_defs call_defs name_defs fixture_defs
      parseStatements_def skipBOM_def scanLoop.simps tokEOF_def endOfStatement_def blank.simps
      dropSpace_def)

lemma Rollback_oracle:
  "\<exists>w'. Rollback simSys oracleDB (start (fixtureTables\<lparr>rows := [''20200101000000'']\<rparr>))
         = Some (Returns None, w')
      \<and> executed (ext w') = [''drop table b'', '' drop table a'']"
  by (simp add: engine_defs sim_defs call_defs name_defs fixture_defs
      parseStatements_def skipBOM_def scanLoop.simps tokEOF_def endOfStatement_def blank.simps
      dropSpace_def)

lemma Migrate_native:
  "\<exists>w'. Migrate simSys simDB (start fixtureTables) = Some (None, w')
      \<and> executed (ext w') = [''create table a (id int); create table b (id int);'']"
  by (simp add: engine_defs sim_defs call_defs name_defs fixture_defs)

theorem engine_mode_witness:
  "(\<exists>w'. Migrate simSys oracleDB (start fixtureTables) = Some (None, w')
      \<and> executed (ext w') = [''create table a (id int)'', '' create table b (id int)'']
      \<and> execsFollowMode False fst (since (start fixtureTables) w'))
   \<and> (\<exists>w'. Rollback simSys oracleDB (start (fixtureTables\<lparr>rows := [''20200101000000'']\<rparr>))
             = Some (Returns None, w')
      \<and> executed (ext w') = [''drop table b'', '' drop table a'']
      \<and> execsFollowMode False snd (since (start (fixtureTables\<lparr>rows := [''20200101000000'']\<rparr>)) w'))
   \<and> (\<exists>w'. Migrate simSys simDB (start fixtureTables) = Some (None, w')
      \<and> executed (ext w') = [''create table a (id int); create table b (id int);'']
      \<and> execsFollowMode True fst (since (start fixtureTables) w'))"
proof -
  have o: "NativeEngine oracleDB" "Scheme (DatabaseURL oracleDB) = ''oracle''"
    "NativeEngine simDB" "Scheme (DatabaseURL simDB) \<noteq> ''oracle''"
    by (simp_all add: oracleDB_def simDB_def)
  from Migrate_oracle obtain w1 where
    1: "Migrate simSys oracleDB (start fixtureTables) = Some (None, w1)"
      "executed (ext w1) = [''create table a (id int)'', '' create table b (id int)'']"
    by blast
  from Rollback_oracle obtain w2 where
    2: "Rollback simSys oracleDB (start (fixtureTables\<lparr>rows := [''20200101000000'']\<rparr>))
         = Some (Returns None, w2)"
      "executed (ext w2) = [''drop table b'', '' drop table a'']"
    by blast
  from Migrate_native obtain w3 where
    3: "Migrate simSys simDB (start fixtureTables) = Some (None, w3)"
      "executed (ext w3) = [''create table a (id int); create table b (id int);'']"
    by blast
  from 1 o engine_mode [where sys = simSys and db = oracleDB and w = "start fixtureTables"
      and r = None and w' = w1]
  have a: "execsFollowMode False fst (since (start fixtureTables) w1)" by simp
  from 2 o engine_mode [where sys = simSys and db = oracleDB
      and w = "start (fixtureTables\<lparr>rows := [''20200101000000'']\<rparr>)"
      and ro = "Returns None" and w' = w2]
  have b: "execsFollowMode False snd (since (start (fixtureTables\<lparr>rows := [''20200101000000'']\<rparr>)) w2)"
    by simp
  from 3 o engine_mode [where sys = simSys and db = simDB and w = "start fixtureTables"
      and r = None and w' = w3]
  have c: "execsFollowMode True fst (since (start fixtureTables) w3)" by simp
  from 1 2 3 a b c show ?thesis by blast
qed

subsection \<open>C2: the pending files are applied in the order of their names\<close>

lemma take_le_mono: "(xs :: 'a :: linorder list) \<le> ys \<Longrightarrow> take n xs \<le> take n ys"
proof (induction n arbitrary: xs ys)
  case 0
  then show ?case by simp
next
  case (Suc n)
  show ?case
  proof (cases xs)
    case Nil
    then show ?thesis by simp
  next
    case xs: (Cons a x)
    show ?thesis
    proof (cases ys)
      case Nil
      with Suc.prems xs show ?thesis by simp
    next
      case (Cons b y)
      with Suc.prems xs have "a < b \<or> a = b \<and> x \<le> y" by simp
      with Suc.IH [of x y] xs Cons show ?thesis by auto
    qed
  qed
qed

lemma migrationVersion_take: "migrationVersion f = take (length (migrationVersion f)) f"
  unfolding migrationVersion_def by (rule takeWhile_eq_take)

lemma sorted_versions:
  assumes "sorted files" and "\<forall>f \<in> set files. length (migrationVersion f) = n"
  shows "sorted (map migrationVersion files)"
proof -
  from assms(2) have a: "map migrationVersion files = map (take n) files"
    using migrationVersion_take by (intro map_cong) auto
  have b: "sorted (map (take n) files)"
    using assms(1) by (induction files) (auto intro: take_le_mono)
  show ?thesis by (simp only: a b)
qed

lemma matchingFiles_sorted: "sorted (matchingFiles re entries)"
  by (simp add: matchingFiles_def)

lemma matchingFiles_listing_order:
  assumes "set entries' = set entries" "distinct (map fst entries')" "distinct (map fst entries)"
  shows "matchingFiles re entries' = matchingFiles re entries"
proof -
  have eq: "[name. (name, isDir) \<leftarrow> es, \<not> isDir, re name]
      = map fst (filter (\<lambda>e. \<not> snd e \<and> re (fst e)) es)" for es :: "(string \<times> bool) list"
    by (induction es) auto
  have d: "distinct (map fst (filter (\<lambda>e. \<not> snd e \<and> re (fst e)) es))"
    if "distinct (map fst es)" for es :: "(string \<times> bool) list"
    using that by (rule distinct_map_filter)
  have "set (map fst (filter (\<lambda>e. \<not> snd e \<and> re (fst e)) entries'))
      = set (map fst (filter (\<lambda>e. \<not> snd e \<and> re (fst e)) entries))"
    using assms(1) by simp
  then show ?thesis
    unfolding matchingFiles_def eq
    by (intro sorted_distinct_set_unique) (simp_all add: d assms)
qed

text \<open>
  C2. In a run of \<open>Migrate\<close> that returns, let \<open>entries\<close> be the listing of the migrations
  directory and \<open>vs\<close> the applied versions the driver returned. The calls between the queries and
  the schema dump are exactly those of applying, one after the other, the files that match the
  file pattern and whose version is not in \<open>vs\<close>, in ascending order of their \<^emph>\<open>file names\<close>:
  each is parsed, its Up script is executed under the transaction policy of its Up section with
  the insertion of its version in the same scope, and the first failure ends the batch and is
  the result. That order does not depend on the order of the listing, and it is the ascending
  order of the versions when all the versions have the same length.
\<close>

theorem Migrate_pending_in_order:
  assumes run: "Migrate sys db w = Some (r, w')"
    and dir: "C_ReadDir d (Inr entries) \<in> set (since w w')"
    and sel: "C_SelectMigrations c l (Inr vs) \<in> set (since w w')"
  shows "(\<exists>t0 tm td. since w w' = t0 @ tm @ td
            \<and> kinds t0 \<subseteq> {ListK, Probe, Conn, Table, Query}
            \<and> kinds td \<subseteq> {Probe, Conn, Table, Dump}
            \<and> appliedInOrder (useNativeEngine db) c (sysJoin sys (MigrationsDir db))
                 (pendingFiles vs (matchingFiles migrationFileRegexp entries)) r tm)
       \<and> sorted (matchingFiles migrationFileRegexp entries)
       \<and> (\<forall>entries'. set entries' = set entries \<and> distinct (map fst entries')
               \<and> distinct (map fst entries) \<longrightarrow>
             matchingFiles migrationFileRegexp entries' = matchingFiles migrationFileRegexp entries)
       \<and> (\<forall>n. (\<forall>f \<in> set (matchingFiles migrationFileRegexp entries).
                  length (migrationVersion f) = n) \<longrightarrow>
             sorted (map migrationVersion
                       (pendingFiles vs (matchingFiles migrationFileRegexp entries))))"
proof (intro conjI allI impI)
  from Migrate_calls [OF run] obtain t0 tm td where
    c: "calls w' = calls w @ t0 @ tm @ td"
    and k0: "kinds t0 \<subseteq> {ListK, Probe, Conn, Table, Query}"
    and km: "kinds tm \<subseteq> {ParseK, TxK, ExecK, Book}"
    and kd: "kinds td \<subseteq> {Probe, Conn, Table, Dump}"
    and ord: "\<forall>d entries c l vs.
           C_ReadDir d (Inr entries) \<in> set t0 \<longrightarrow> C_SelectMigrations c l (Inr vs) \<in> set t0 \<longrightarrow>
           appliedInOrder (useNativeEngine db) c (sysJoin sys (MigrationsDir db))
             (pendingFiles vs (matchingFiles migrationFileRegexp entries)) r tm"
    by blast
  from c have s: "since w w' = t0 @ tm @ td" by simp
  from dir s km kd have "C_ReadDir d (Inr entries) \<in> set t0"
    by (force simp: kinds_subset_iff)
  moreover from sel s km kd have "C_SelectMigrations c l (Inr vs) \<in> set t0"
    by (force simp: kinds_subset_iff)
  ultimately have "appliedInOrder (useNativeEngine db) c (sysJoin sys (MigrationsDir db))
             (pendingFiles vs (matchingFiles migrationFileRegexp entries)) r tm"
    using ord by blast
  with s k0 kd show "\<exists>t0 tm td. since w w' = t0 @ tm @ td
            \<and> kinds t0 \<subseteq> {ListK, Probe, Conn, Table, Query}
            \<and> kinds td \<subseteq> {Probe, Conn, Table, Dump}
            \<and> appliedInOrder (useNativeEngine db) c (sysJoin sys (MigrationsDir db))
                 (pendingFiles vs (matchingFiles migrationFileRegexp entries)) r tm"
    by blast
next
  show "sorted (matchingFiles migrationFileRegexp entries)" by (rule matchingFiles_sorted)
next
  fix entries' :: "(string \<times> bool) list"
  assume "set entries' = set entries \<and> distinct (map fst entries')
               \<and> distinct (map fst entries)"
  then show "matchingFiles migrationFileRegexp entries' = matchingFiles migrationFileRegexp entries"
    by (intro matchingFiles_listing_order) simp_all
next
  fix n
  assume a: "\<forall>f \<in> set (matchingFiles migrationFileRegexp entries). length (migrationVersion f) = n"
  have "sorted (pendingFiles vs (matchingFiles migrationFileRegexp entries))"
    unfolding pendingFiles_def by (intro sorted_wrt_filter) (rule matchingFiles_sorted)
  moreover from a have "\<forall>f \<in> set (pendingFiles vs (matchingFiles migrationFileRegexp entries)).
      length (migrationVersion f) = n"
    by (simp add: pendingFiles_def)
  ultimately show "sorted (map migrationVersion
      (pendingFiles vs (matchingFiles migrationFileRegexp entries)))"
    by (rule sorted_versions)
qed


text \<open>
  On the fixture (two applied files, three pending, listed out of order) the three pending files
  are applied in ascending order.
\<close>

lemma Migrate_fixture:
  "\<exists>w'. Migrate simSys simDB (start fixture) = Some (None, w')
     \<and> C_ReadDir ''db/migrations''
           (Inr [(migC, False), (migA, False), (''README.md'', False), (migE, False),
                 (''archive'', True), (migB, False), (migD, False)]) \<in> set (calls w')
     \<and> C_SelectMigrations 0 (- 1)
           (Inr [(''20200102000000'', True), (''20200101000000'', True)]) \<in> set (calls w')
     \<and> parsed (calls w') = map (\<lambda>name. ''db/migrations/'' @ name) [migC, migD, migE]
     \<and> rows (ext w') = [''20200105000000'', ''20200104000000'', ''20200103000000'',
                         ''20200102000000'', ''20200101000000'']"
  by (simp add: engine_defs sim_defs call_defs name_defs parsed_def)

theorem Migrate_pending_in_order_witness:
  "\<exists>w'. Migrate simSys simDB (start fixture) = Some (None, w')
     \<and> parsed (calls w') = map (\<lambda>name. ''db/migrations/'' @ name) [migC, migD, migE]
     \<and> rows (ext w') = [''20200105000000'', ''20200104000000'', ''20200103000000'',
                         ''20200102000000'', ''20200101000000'']
     \<and> (\<exists>t0 tm td. calls w' = t0 @ tm @ td
           \<and> kinds t0 \<subseteq> {ListK, Probe, Conn, Table, Query}
           \<and> kinds td \<subseteq> {Probe, Conn, Table, Dump}
           \<and> appliedInOrder True 0 (sysJoin simSys ''db/migrations'') [migC, migD, migE] None tm)
     \<and> sorted (map migrationVersion [migC, migD, migE])"
proof -
  let ?es = "[(migC, False), (migA, False), (''README.md'', False), (migE, False),
                 (''archive'', True), (migB, False), (migD, False)]"
  let ?vs = "[(''20200102000000'', True), (''20200101000000'', True)]"
  from Migrate_fixture obtain w1 where
    run: "Migrate simSys simDB (start fixture) = Some (None, w1)"
    and dir: "C_ReadDir ''db/migrations'' (Inr ?es) \<in> set (calls w1)"
    and sel: "C_SelectMigrations 0 (- 1) (Inr ?vs) \<in> set (calls w1)"
    and par: "parsed (calls w1) = map (\<lambda>name. ''db/migrations/'' @ name) [migC, migD, migE]"
    and rws: "rows (ext w1) = [''20200105000000'', ''20200104000000'', ''20200103000000'',
                         ''20200102000000'', ''20200101000000'']"
    by blast
  have s: "since (start fixture) w1 = calls w1" by (simp add: since_def start_def)
  have m: "matchingFiles migrationFileRegexp ?es = [migA, migB, migC, migD, migE]"
    by (simp add: matchingFiles_def sim_defs name_defs)
  have p: "pendingFiles ?vs [migA, migB, migC, migD, migE] = [migC, migD, migE]"
    by (simp add: pendingFiles_def sim_defs name_defs)
  have n: "useNativeEngine simDB" "MigrationsDir simDB = ''db/migrations''"
    by (simp_all add: useNativeEngine_def simDB_def)
  have l: "\<forall>f \<in> set [migA, migB, migC, migD, migE]. length (migrationVersion f) = 14"
    by (simp add: sim_defs name_defs)
  from Migrate_pending_in_order [of simSys simDB "start fixture" None w1 "''db/migrations''" ?es 0 "- 1" ?vs]
    run dir sel l
  have "(\<exists>t0 tm td. calls w1 = t0 @ tm @ td
           \<and> kinds t0 \<subseteq> {ListK, Probe, Conn, Table, Query}
           \<and> kinds td \<subseteq> {Probe, Conn, Table, Dump}
           \<and> appliedInOrder True 0 (sysJoin simSys ''db/migrations'') [migC, migD, migE] None tm)
     \<and> sorted (map migrationVersion [migC, migD, migE])"
    unfolding s m p by (simp only: n simp_thms)
  with run par rws show ?thesis by blast
qed

text \<open>
  The order is that of the file names, not of the versions: \<open>10_b.sql\<close> sorts before
  \<open>1_a.sql\<close> (the character \<open>0\<close> is below \<open>_\<close>), so version \<open>10\<close> is applied before version
  \<open>1\<close>.
\<close>

theorem Migrate_version_order_counterexample:
  "returned (Migrate simSys simDB (start fixtureWidths)) = Some None
   \<and> parsed (callsOf (Migrate simSys simDB (start fixtureWidths)))
       = [''db/migrations/10_b.sql'', ''db/migrations/1_a.sql'']
   \<and> map_option rows (backendOf (Migrate simSys simDB (start fixtureWidths))) = Some [''1'', ''10'']
   \<and> migrationVersion ''10_b.sql'' = ''10'' \<and> migrationVersion ''1_a.sql'' = ''1''
   \<and> ''1'' < ''10''"
  by (simp add: engine_defs sim_defs call_defs name_defs parsed_def fixture_defs fixtureWidths_def
      returned_def callsOf_def backendOf_def)

subsection \<open>C5: rollback of the latest version only\<close>

text \<open>\<open>Rollback\<close> ends, with a return or a panic, whenever its waits do.\<close>

lemma DumpSchema_returns:
  assumes "WaitBefore db \<longrightarrow>
      0 <s WaitInterval db \<and> sint (WaitTimeout db) + sint (WaitInterval db) \<le> 2 ^ 63"
  shows "\<exists>res. DumpSchema sys db w = Some res"
proof (cases "WaitBefore db")
  case False
  then show ?thesis by (simp add: DumpSchema_def)
next
  case True
  with assms Wait_terminates_positive_interval [of db sys w]
  obtain res where "Wait sys db w = Some res" by blast
  with True show ?thesis
    by (cases res) (auto simp: DumpSchema_def split: option.splits)
qed

lemma rollbackBody_returns:
  assumes "WaitBefore db \<longrightarrow>
      0 <s WaitInterval db \<and> sint (WaitTimeout db) + sint (WaitInterval db) \<le> 2 ^ 63"
  shows "\<exists>res. rollbackBody sys db drv sqlDB w = Some res"
proof -
  have d: "DumpSchema sys db w4 \<noteq> None" for w4
    using DumpSchema_returns [OF assms, of sys w4] by auto
  show ?thesis
    unfolding rollbackBody_def
    by (auto simp: d split: prod.splits sum.splits outcome.splits option.splits)
qed

lemma Rollback_returns:
  assumes "WaitBefore db \<longrightarrow>
      0 <s WaitInterval db \<and> sint (WaitTimeout db) + sint (WaitInterval db) \<le> 2 ^ 63"
  shows "\<exists>res. Rollback sys db w = Some res"
proof -
  have b: "\<exists>res. rollbackBody sys db drv sqlDB w1 = Some res" for drv sqlDB w1
    using rollbackBody_returns [OF assms] .
  have o: "\<exists>res. rollbackOpen sys db w1 = Some res" for w1
  proof (cases "openDatabaseForMigration sys db w1")
    case (Pair x w2)
    show ?thesis
    proof (cases x)
      case (Inl e)
      with Pair show ?thesis by (simp add: rollbackOpen_def)
    next
      case (Inr p)
      obtain drv c where p: "p = (drv, c)" by (cases p)
      from b [of drv c w2] obtain res where "rollbackBody sys db drv c w2 = Some res" by blast
      with Pair Inr p show ?thesis by (cases res) (simp add: rollbackOpen_def)
    qed
  qed
  show ?thesis
  proof (cases "WaitBefore db")
    case False
    with o show ?thesis by (simp add: Rollback_def)
  next
    case True
    with assms Wait_terminates_positive_interval [of db sys w]
    obtain res where w: "Wait sys db w = Some res" by blast
    obtain r w1 where res: "res = (r, w1)" by (cases res)
    show ?thesis
    proof (cases r)
      case None
      with True w res o [of w1] show ?thesis by (simp add: Rollback_def)
    next
      case (Some e)
      with True w res show ?thesis by (simp add: Rollback_def)
    qed
  qed
qed

lemma latestVersion_simps: "latestVersion [] = []" "latestVersion [(v, b)] = v"
  by (simp_all add: latestVersion_def)

lemma Rollback_latest:
  assumes run: "Rollback sys db w = Some (r, w')"
  shows "(\<forall>c l rs. C_SelectMigrations c l rs \<in> set (since w w') \<longrightarrow> l = 1)
       \<and> (\<forall>c l vs. C_SelectMigrations c l (Inr vs) \<in> set (since w w') \<longrightarrow>
            (latestVersion vs = [] \<longrightarrow>
               r = Returns (Some ''can't rollback: no migrations have been applied'')
               \<and> kinds (since w w') \<subseteq> {Probe, Conn, Table, Query})
          \<and> (latestVersion vs \<noteq> [] \<longrightarrow>
               (\<exists>t0 tm td. since w w' = t0 @ tm @ td
                  \<and> kinds t0 \<subseteq> {Probe, Conn, Table, Query}
                  \<and> kinds td \<subseteq> {Probe, Conn, Table, Dump}
                  \<and> execsFollowMode (useNativeEngine db) snd tm
                  \<and> rolledBack (useNativeEngine db) c (MigrationsDir db)
                       (sysJoin sys (MigrationsDir db)) (latestVersion vs) r tm
                  \<and> (isPanic r \<longrightarrow> td = [C_Close c]))))"
proof -
  from Rollback_calls [OF run] obtain t0 tm td where
    c: "calls w' = calls w @ t0 @ tm @ td"
    and k0: "kinds t0 \<subseteq> {Probe, Conn, Table, Query}"
    and km: "kinds tm \<subseteq> {ListK, ParseK, TxK, ExecK, Book}"
    and kd: "kinds td \<subseteq> {Probe, Conn, Table, Dump}"
    and fm: "execsFollowMode (useNativeEngine db) snd tm"
    and lim: "\<forall>c l rs. C_SelectMigrations c l rs \<in> set t0 \<longrightarrow> l = 1"
    and aq: "\<forall>c l vs. C_SelectMigrations c l (Inr vs) \<in> set t0 \<longrightarrow> afterQuery sys db c vs r tm td"
    by (elim exE conjE) (rule that; assumption)
  have s: "since w w' = t0 @ tm @ td" using c by simp
  have sel: "C_SelectMigrations c l rs \<in> set t0" if "C_SelectMigrations c l rs \<in> set (since w w')"
    for c l rs
    using that km kd unfolding s by (force simp: kinds_subset_iff)
  have 1: "\<forall>c l rs. C_SelectMigrations c l rs \<in> set (since w w') \<longrightarrow> l = 1"
    using lim sel by blast
  have 2: "r = Returns (Some ''can't rollback: no migrations have been applied'')
           \<and> kinds (since w w') \<subseteq> {Probe, Conn, Table, Query}"
    if m: "C_SelectMigrations c l (Inr vs) \<in> set (since w w')" and e: "latestVersion vs = []"
    for c l vs
  proof -
    from aq sel [OF m] have "afterQuery sys db c vs r tm td" by blast
    with e have "tm = []" "td = [C_Close c]"
      "r = Returns (Some ''can't rollback: no migrations have been applied'')"
      by (simp_all add: afterQuery_def)
    with k0 show ?thesis unfolding s by simp
  qed
  have 3: "\<exists>t0 tm td. since w w' = t0 @ tm @ td
                  \<and> kinds t0 \<subseteq> {Probe, Conn, Table, Query}
                  \<and> kinds td \<subseteq> {Probe, Conn, Table, Dump}
                  \<and> execsFollowMode (useNativeEngine db) snd tm
                  \<and> rolledBack (useNativeEngine db) c (MigrationsDir db)
                       (sysJoin sys (MigrationsDir db)) (latestVersion vs) r tm
                  \<and> (isPanic r \<longrightarrow> td = [C_Close c])"
    if m: "C_SelectMigrations c l (Inr vs) \<in> set (since w w')" and e: "latestVersion vs \<noteq> []"
    for c l vs
  proof -
    from aq sel [OF m] have "afterQuery sys db c vs r tm td" by blast
    with e have "rolledBack (useNativeEngine db) c (MigrationsDir db)
                       (sysJoin sys (MigrationsDir db)) (latestVersion vs) r tm"
      "isPanic r \<longrightarrow> td = [C_Close c]"
      by (simp_all add: afterQuery_def)
    with s k0 kd fm show ?thesis by blast
  qed
  from 1 2 3 show ?thesis by blast
qed

text \<open>
  C5, as amended. \<open>Rollback\<close> ends, with a return or a panic (when \<open>WaitBefore\<close> is set,
  provided the interval is positive and the loop counter of \<open>Wait\<close> does not wrap). In a
  run that ends, every bookkeeping query asks for one entry, the latest. If the query
  returned no version, the result is the error
  \<open>can't rollback: no migrations have been applied\<close> and the run made no other calls than
  probes, opening and closing the connection, \<open>CreateMigrationsTable\<close> (which every run
  makes before the query) and that query: no script is executed, no transaction begun, no
  bookkeeping row inserted or deleted, no file read or written. If it returned a version,
  \<open>Rollback\<close> panics, with no further call than closing the connection, exactly when that
  version is not valid UTF-8; otherwise the calls between the query and the schema dump
  delete the row of no other version and insert none, parse only one file, the first in
  sorted order whose name starts with that version (which need not be the file of that
  version), and execute only the Down script parsed. A query that returns one entry gives
  that entry's version.
\<close>

theorem Rollback_latest_only:
  "((WaitBefore db \<longrightarrow>
       0 <s WaitInterval db \<and> sint (WaitTimeout db) + sint (WaitInterval db) \<le> 2 ^ 63) \<longrightarrow>
      (\<exists>res. Rollback sys db w = Some res))
   \<and> (\<forall>r w'. Rollback sys db w = Some (r, w') \<longrightarrow>
        (\<forall>c l rs. C_SelectMigrations c l rs \<in> set (since w w') \<longrightarrow> l = 1)
      \<and> (\<forall>c l vs. C_SelectMigrations c l (Inr vs) \<in> set (since w w') \<longrightarrow>
            (latestVersion vs = [] \<longrightarrow>
               r = Returns (Some ''can't rollback: no migrations have been applied'')
               \<and> kinds (since w w') \<subseteq> {Probe, Conn, Table, Query})
          \<and> (latestVersion vs \<noteq> [] \<longrightarrow>
               (\<exists>t0 tm td. since w w' = t0 @ tm @ td
                  \<and> kinds t0 \<subseteq> {Probe, Conn, Table, Query}
                  \<and> kinds td \<subseteq> {Probe, Conn, Table, Dump}
                  \<and> execsFollowMode (useNativeEngine db) snd tm
                  \<and> rolledBack (useNativeEngine db) c (MigrationsDir db)
                       (sysJoin sys (MigrationsDir db)) (latestVersion vs) r tm
                  \<and> (isPanic r \<longrightarrow> td = [C_Close c])))))
   \<and> latestVersion [] = [] \<and> (\<forall>v b. latestVersion [(v, b)] = v)"
  using Rollback_returns [of db sys w] Rollback_latest [of sys db w]
  by (simp only: latestVersion_simps simp_thms) blast

text \<open>
  On a database with no applied version \<open>Rollback\<close> fails and leaves the bookkeeping rows and
  the executed statements as they were; on the fixture it rolls back the later of the two
  applied versions; on an applied version that is not valid UTF-8 it panics.
\<close>

lemma validUTF8_Cons:
  "validUTF8 (c # s) =
     (case DecodeRuneInString (c # s) of
        (r, n) \<Rightarrow> \<not> (r = RuneError \<and> n = 1) \<and> validUTF8 (drop n (c # s)))"
  by (simp add: validUTF8.simps [of "c # s"])

lemma Rollback_empty:
  "\<exists>w'. Rollback simSys (simDB\<lparr>WaitBefore := True\<rparr>) (start emptyBackend)
          = Some (Returns (Some ''can't rollback: no migrations have been applied''), w')
      \<and> calls w' = [C_Ping None, C_Open (Inr 0), C_CreateMigrationsTable 0 None,
                     C_SelectMigrations 0 1 (Inr []), C_Close 0]
      \<and> rows (ext w') = [] \<and> executed (ext w') = []"
  by (simp add: engine_defs sim_defs call_defs name_defs Wait_def
      waitLoop.simps [of _ _ _ _ _ "\<lparr>ext = _, calls = _, out = _\<rparr>"] word_sless_alt)

lemma Rollback_fixture:
  "\<exists>w'. Rollback simSys simDB (start fixture) = Some (Returns None, w')
      \<and> C_SelectMigrations 0 1 (Inr [(''20200102000000'', True)]) \<in> set (calls w')
      \<and> parsed (calls w') = [''db/migrations/'' @ migB]
      \<and> rows (ext w') = [''20200101000000'']"
  by (simp add: engine_defs sim_defs call_defs name_defs parsed_def)

lemma Rollback_invalid:
  "\<exists>w'. Rollback simSys simDB (start fixtureInvalid)
          = Some (Panic ''regexp: Compile: error parsing regexp: invalid UTF-8'', w')
      \<and> calls w' = [C_Open (Inr 0), C_CreateMigrationsTable 0 None,
                     C_SelectMigrations 0 1 (Inr [([CHR 0xFF], True)]), C_Close 0]
      \<and> rows (ext w') = [[CHR 0xFF]] \<and> executed (ext w') = []"
  by (simp add: engine_defs sim_defs call_defs name_defs fixtureInvalid_def validUTF8_Cons
      RuneError_def)

theorem Rollback_latest_only_witness:
  "(\<exists>w'. Rollback simSys (simDB\<lparr>WaitBefore := True\<rparr>) (start emptyBackend)
          = Some (Returns (Some ''can't rollback: no migrations have been applied''), w')
      \<and> kinds (calls w') \<subseteq> {Probe, Conn, Table, Query}
      \<and> rows (ext w') = [] \<and> executed (ext w') = [])
   \<and> (\<exists>w'. Rollback simSys simDB (start fixture) = Some (Returns None, w')
      \<and> parsed (calls w') = [''db/migrations/'' @ migB]
      \<and> rows (ext w') = [''20200101000000'']
      \<and> (\<exists>t0 tm td. calls w' = t0 @ tm @ td
            \<and> kinds t0 \<subseteq> {Probe, Conn, Table, Query}
            \<and> kinds td \<subseteq> {Probe, Conn, Table, Dump}
            \<and> rolledBack True 0 ''db/migrations'' (sysJoin simSys ''db/migrations'')
                 ''20200102000000'' (Returns None) tm))
   \<and> (\<exists>w'. Rollback simSys simDB (start fixtureInvalid)
          = Some (Panic ''regexp: Compile: error parsing regexp: invalid UTF-8'', w')
      \<and> rows (ext w') = [[CHR 0xFF]] \<and> executed (ext w') = []
      \<and> (\<exists>t0 tm. calls w' = t0 @ tm @ [C_Close 0]
            \<and> kinds t0 \<subseteq> {Probe, Conn, Table, Query}
            \<and> rolledBack True 0 ''db/migrations'' (sysJoin simSys ''db/migrations'')
                 [CHR 0xFF] (Panic ''regexp: Compile: error parsing regexp: invalid UTF-8'') tm))"
proof -
  let ?db = "simDB\<lparr>WaitBefore := True\<rparr>"
  let ?e = "Returns (Some ''can't rollback: no migrations have been applied'')"
  let ?p = "Panic ''regexp: Compile: error parsing regexp: invalid UTF-8''"
  from Rollback_empty obtain w1 where
    run1: "Rollback simSys ?db (start emptyBackend) = Some (?e, w1)"
    and sel1: "C_SelectMigrations 0 1 (Inr []) \<in> set (calls w1)"
    and st1: "rows (ext w1) = []" "executed (ext w1) = []"
    by auto
  from Rollback_fixture obtain w2 where
    run2: "Rollback simSys simDB (start fixture) = Some (Returns None, w2)"
    and sel2: "C_SelectMigrations 0 1 (Inr [(''20200102000000'', True)]) \<in> set (calls w2)"
    and st2: "parsed (calls w2) = [''db/migrations/'' @ migB]" "rows (ext w2) = [''20200101000000'']"
    by blast
  from Rollback_invalid obtain w3 where
    run3: "Rollback simSys simDB (start fixtureInvalid) = Some (?p, w3)"
    and sel3: "C_SelectMigrations 0 1 (Inr [([CHR 0xFF], True)]) \<in> set (calls w3)"
    and st3: "rows (ext w3) = [[CHR 0xFF]]" "executed (ext w3) = []"
    by auto
  have s: "since (start emptyBackend) w1 = calls w1" "since (start fixture) w2 = calls w2"
    "since (start fixtureInvalid) w3 = calls w3"
    by (simp_all add: since_def start_def)
  have h: "WaitBefore ?db \<longrightarrow>
       0 <s WaitInterval ?db \<and> sint (WaitTimeout ?db) + sint (WaitInterval ?db) \<le> 2 ^ 63"
    by (simp add: simDB_def word_sless_alt)
  have l1: "latestVersion ([] :: versions) = []"
    and l2: "latestVersion [(''20200102000000'', True)] = ''20200102000000''"
    and l3: "latestVersion [([CHR 0xFF], True)] = [CHR 0xFF]"
    by (simp_all add: latestVersion_def)
  have n: "useNativeEngine simDB" "MigrationsDir simDB = ''db/migrations''"
    by (simp_all add: useNativeEngine_def simDB_def)
  note t1 = Rollback_latest_only [of ?db simSys "start emptyBackend"]
  from t1 h have "\<exists>res. Rollback simSys ?db (start emptyBackend) = Some res" by blast
  note a1 = t1 [THEN conjunct2, THEN conjunct1, rule_format, OF run1]
  note b1 = a1 [THEN conjunct2, rule_format, OF sel1 [folded s]]
  from b1 [THEN conjunct1, rule_format, OF l1]
  have k1: "kinds (calls w1) \<subseteq> {Probe, Conn, Table, Query}" unfolding s by simp
  note t2 = Rollback_latest_only [of simDB simSys "start fixture"]
  note a2 = t2 [THEN conjunct2, THEN conjunct1, rule_format, OF run2]
  note b2 = a2 [THEN conjunct2, rule_format, OF sel2 [folded s]]
  have "latestVersion [(''20200102000000'', True)] \<noteq> []" by (simp add: l2)
  from b2 [THEN conjunct2, rule_format, OF this]
  have k2: "\<exists>t0 tm td. calls w2 = t0 @ tm @ td
            \<and> kinds t0 \<subseteq> {Probe, Conn, Table, Query}
            \<and> kinds td \<subseteq> {Probe, Conn, Table, Dump}
            \<and> rolledBack True 0 ''db/migrations'' (sysJoin simSys ''db/migrations'')
                 ''20200102000000'' (Returns None) tm"
    unfolding s l2 by (simp only: n simp_thms) blast
  note t3 = Rollback_latest_only [of simDB simSys "start fixtureInvalid"]
  note a3 = t3 [THEN conjunct2, THEN conjunct1, rule_format, OF run3]
  note b3 = a3 [THEN conjunct2, rule_format, OF sel3 [folded s]]
  have "latestVersion [([CHR 0xFF], True)] \<noteq> []" by (simp add: l3)
  from b3 [THEN conjunct2, rule_format, OF this]
  have k3: "\<exists>t0 tm. calls w3 = t0 @ tm @ [C_Close 0]
            \<and> kinds t0 \<subseteq> {Probe, Conn, Table, Query}
            \<and> rolledBack True 0 ''db/migrations'' (sysJoin simSys ''db/migrations'')
                 [CHR 0xFF] ?p tm"
    unfolding s l3 by (simp only: n simp_thms) (auto simp: isPanic_def)
  from run1 k1 st1 run2 st2 k2 run3 st3 k3 show ?thesis by blast
qed

text \<open>
  The claim as stated fails: the file \<open>Rollback\<close> resolves for the latest version is the first
  in sorted order whose name starts with that version. With version \<open>100\<close> applied and
  \<open>1000_b.sql\<close> pending, \<open>1000_b.sql\<close> sorts before \<open>100_a.sql\<close>: \<open>Rollback\<close> parses and
  executes the Down script of the migration \<open>1000\<close>, which was never applied, and deletes
  the row of version \<open>100\<close>.
\<close>

theorem Rollback_other_version_counterexample:
  "returned (Rollback simSys simDB (start fixturePrefix)) = Some (Returns None)
   \<and> parsed (callsOf (Rollback simSys simDB (start fixturePrefix)))
       = [''db/migrations/1000_b.sql'']
   \<and> map_option executed (backendOf (Rollback simSys simDB (start fixturePrefix)))
       = Some [Contents tablesDown]
   \<and> map_option rows (backendOf (Rollback simSys simDB (start fixturePrefix))) = Some []
   \<and> rows fixturePrefix = [''100'']
   \<and> migrationVersion ''1000_b.sql'' = ''1000''
   \<and> Contents tablesDown \<noteq> Contents usersDown"
  by (simp add: engine_defs sim_defs call_defs name_defs parsed_def fixture_defs
      fixturePrefix_def returned_def callsOf_def backendOf_def)

subsection \<open>The engine on the backend\<close>

text \<open>
  What each call and each part of the engine does to the state of the backend of
  section \<open>A backend to run the engine on\<close>.
\<close>

lemma sameSetting_refl [simp]: "sameSetting s s"
  by (simp add: sameSetting_def)

lemma sameSetting_trans: "sameSetting s s' \<Longrightarrow> sameSetting s' s'' \<Longrightarrow> sameSetting s s''"
  by (auto simp: sameSetting_def)

lemma idle_refl [simp]: "idle w w"
  by (simp add: idle_def since_def)

lemma idle_trans: "idle w w' \<Longrightarrow> idle w' w'' \<Longrightarrow> idle w w''"
proof -
  assume a: "idle w w'" and b: "idle w' w''"
  from a have a1: "calls w' = calls w @ since w w'" unfolding idle_def by (elim conjE)
  from b have b1: "calls w'' = calls w' @ since w' w''" unfolding idle_def by (elim conjE)
  have c: "calls w'' = calls w @ (since w w' @ since w' w'')"
    by (subst b1, subst a1) (simp del: since_append)
  have s: "since w w'' = since w w' @ since w' w''" by (rule since_append [OF c])
  from a have a2: "sameSetting (ext w) (ext w')" "rows (ext w') = rows (ext w)"
    "executed (ext w') = executed (ext w)"
    "kinds (since w w') \<subseteq> {ListK, Probe, Conn, Table, Query, Dump}"
    unfolding idle_def by (simp_all del: since_append)
  from b have b2: "sameSetting (ext w') (ext w'')" "rows (ext w'') = rows (ext w')"
    "executed (ext w'') = executed (ext w')"
    "kinds (since w' w'') \<subseteq> {ListK, Probe, Conn, Table, Query, Dump}"
    unfolding idle_def by (simp_all del: since_append)
  have k: "kinds (since w w'') \<subseteq> {ListK, Probe, Conn, Table, Query, Dump}"
    unfolding s using a2(4) b2(4) by (simp del: since_append)
  have c': "calls w'' = calls w @ since w w''" unfolding s by (rule c)
  show ?thesis
    unfolding idle_def
    using sameSetting_trans [OF a2(1) b2(1)] a2(2,3) b2(2,3) k c'
    by (simp del: since_append)
qed

lemma idle_setting: "idle w w' \<Longrightarrow> sameSetting (ext w) (ext w')"
  by (simp add: idle_def)

lemma idle_Print [simp]: "idle w (Print s w)"
  by (simp add: idle_def Print_def since_def)

lemma ext_Print [simp]: "ext (Print s w) = ext w"
  by (simp add: Print_def)

lemma idle_simple:
  "idle w (mustClose simSys c w)"
  "idle w (Sleep simSys d w)"
  by (simp_all add: idle_def mustClose_def Sleep_def extern0_def simSys_def since_def)

lemma GetDriver_sim: "GetDriver simSys db = Inr drv \<Longrightarrow> drv = simDriver"
  by (auto simp: GetDriver_def simSys_def split: if_splits)

lemma Ping_sim:
  "Ping simDriver u w = (r, w') \<Longrightarrow>
     idle w w' \<and> (r = None \<longleftrightarrow> pingFailures (ext w) = 0) \<and> (r = None \<longrightarrow> pingFailures (ext w') = 0)"
  by (auto simp: idle_def sameSetting_def since_def Ping_def extern_def simDriver_def
      split: if_splits)

lemma Open_sim: "Open simDriver u w = (x, w') \<Longrightarrow> idle w w' \<and> (\<exists>c. x = Inr c)"
  by (auto simp: idle_def sameSetting_def since_def Open_def extern_def simDriver_def)

lemma CreateMigrationsTable_sim:
  "CreateMigrationsTable simDriver c w = (r, w') \<Longrightarrow> idle w w' \<and> r = None"
  by (auto simp: idle_def sameSetting_def since_def CreateMigrationsTable_def extern_def
      simDriver_def)

lemma SelectMigrations_sim:
  "SelectMigrations simDriver c l w = (x, w') \<Longrightarrow>
     idle w w' \<and> ext w' = ext w
     \<and> x = Inr (map (\<lambda>v. (v, True)) (if l < 0 then rows (ext w) else take (nat l) (rows (ext w))))"
  by (auto simp: idle_def sameSetting_def since_def SelectMigrations_def extern_def simDriver_def)

lemma DriverDumpSchema_sim: "DriverDumpSchema simDriver u c w = (x, w') \<Longrightarrow> idle w w'"
  by (auto simp: idle_def sameSetting_def since_def DriverDumpSchema_def extern_def simDriver_def)

lemma ReadDir_sim:
  "ReadDir simSys d w = (x, w') \<Longrightarrow>
     idle w w' \<and> ext w' = ext w
     \<and> x = (case map_of (dirs (ext w)) d of None \<Rightarrow> Inl ''no such directory'' | Some es \<Rightarrow> Inr es)"
  by (auto simp: idle_def sameSetting_def since_def ReadDir_def extern_def simSys_def
      split: option.splits)

lemma parseMigration_sim:
  "parseMigration simSys p w = (x, w') \<Longrightarrow> ext w' = ext w"
  by (auto simp: parseMigration_def extern_def simSys_def split: option.splits)

lemma ensureDir_sim: "ensureDir simSys d w = (r, w') \<Longrightarrow> idle w w'"
  by (auto simp: idle_def sameSetting_def since_def ensureDir_def extern_def simSys_def)

lemma WriteFile_sim: "WriteFile simSys p c w = (r, w') \<Longrightarrow> idle w w'"
  by (auto simp: idle_def sameSetting_def since_def WriteFile_def extern_def simSys_def)

lemma Begin_sim:
  "Begin simSys c w = (x, w') \<Longrightarrow>
     sameSetting (ext w) (ext w') \<and> rows (ext w') = rows (ext w) \<and> (\<exists>tx. x = Inr tx)"
  by (auto simp: sameSetting_def Begin_def extern_def simSys_def)

lemma Commit_sim:
  "Commit simSys tx w = (r, w') \<Longrightarrow>
     sameSetting (ext w) (ext w') \<and> rows (ext w') = rows (ext w) \<and> r = None"
  by (auto simp: sameSetting_def Commit_def extern_def simSys_def)

lemma Exec_sim:
  "Exec simSys tx q w = (r, w') \<Longrightarrow> sameSetting (ext w) (ext w') \<and> rows (ext w') = rows (ext w)"
  by (auto simp: sameSetting_def Exec_def extern_def simSys_def split: if_splits)

lemma InsertMigration_sim:
  "InsertMigration simDriver tx v w = (r, w') \<Longrightarrow>
     sameSetting (ext w) (ext w')
     \<and> (r = None \<longrightarrow> v \<notin> set (rows (ext w)) \<and> rows (ext w') = v # rows (ext w))"
  by (auto simp: sameSetting_def InsertMigration_def extern_def simDriver_def split: if_splits)

lemma DeleteMigration_sim:
  "DeleteMigration simDriver tx v w = (r, w') \<Longrightarrow>
     sameSetting (ext w) (ext w') \<and> rows (ext w') = removeAll v (rows (ext w))"
  by (auto simp: sameSetting_def DeleteMigration_def extern_def simDriver_def)

lemma waitLoop_sim_step:
  assumes "waitLoop sys drv db i err w = Some y"
  shows "sys = simSys \<longrightarrow> drv = simDriver \<longrightarrow>
        idle w (snd y) \<and> (fst y = None \<longrightarrow> pingFailures (ext (snd y)) = 0)"
proof (rule waitLoop.raw_induct
    [where P = "\<lambda>sys drv db i err w y. sys = simSys \<longrightarrow> drv = simDriver \<longrightarrow>
        idle w (snd y) \<and> (fst y = None \<longrightarrow> pingFailures (ext (snd y)) = 0)",
      OF _ assms])
  fix f :: "backend Sys \<Rightarrow> backend Driver \<Rightarrow> DB \<Rightarrow> Duration \<Rightarrow> error \<Rightarrow> backend world
            \<Rightarrow> (error option \<times> backend world) option"
  fix sys drv db i err w y
  assume IH: "\<And>sys drv db i err w y. f sys drv db i err w = Some y \<Longrightarrow>
      sys = simSys \<longrightarrow> drv = simDriver \<longrightarrow>
        idle w (snd y) \<and> (fst y = None \<longrightarrow> pingFailures (ext (snd y)) = 0)"
  assume step: "(if i <s WaitTimeout db
      then case Ping drv (DatabaseURL db) (Sleep sys (WaitInterval db) (Print ''.'' w)) of
           (None, w1) \<Rightarrow> Some (None, Print [nl] w1)
           | (Some err1, w1) \<Rightarrow> f sys drv db (i + WaitInterval db) err1 w1
      else Some (Some (''unable to connect to database: '' @ err), Print [nl] w)) = Some y"
  show "sys = simSys \<longrightarrow> drv = simDriver \<longrightarrow>
        idle w (snd y) \<and> (fst y = None \<longrightarrow> pingFailures (ext (snd y)) = 0)"
  proof (intro impI)
    assume sd: "sys = simSys" "drv = simDriver"
    show "idle w (snd y) \<and> (fst y = None \<longrightarrow> pingFailures (ext (snd y)) = 0)"
    proof (cases "i <s WaitTimeout db")
      case False
      with step have "y = (Some (''unable to connect to database: '' @ err), Print [nl] w)"
        by simp
      then show ?thesis by simp
    next
      case True
      let ?w0 = "Sleep simSys (WaitInterval db) (Print ''.'' w)"
      obtain p w1 where pg: "Ping simDriver (DatabaseURL db) ?w0 = (p, w1)"
        by (cases "Ping simDriver (DatabaseURL db) ?w0")
      have i0: "idle w ?w0" by (rule idle_trans [OF idle_Print idle_simple(2)])
      from Ping_sim [OF pg] have i1: "idle ?w0 w1"
        and z: "p = None \<longrightarrow> pingFailures (ext w1) = 0" by simp_all
      have i2: "idle w w1" by (rule idle_trans [OF i0 i1])
      show ?thesis
      proof (cases p)
        case None
        with step True pg sd have y: "y = (None, Print [nl] w1)" by simp
        have "idle w (Print [nl] w1)" by (rule idle_trans [OF i2 idle_Print])
        with y z None show ?thesis by simp
      next
        case (Some e)
        with step True pg sd have "f simSys simDriver db (i + WaitInterval db) e w1 = Some y"
          by simp
        from IH [OF this] have i3: "idle w1 (snd y)"
          and z3: "fst y = None \<longrightarrow> pingFailures (ext (snd y)) = 0" by simp_all
        from idle_trans [OF i2 i3] z3 show ?thesis by simp
      qed
    qed
  qed
qed

lemma waitLoop_sim:
  assumes "waitLoop simSys simDriver db i err w = Some (r, w')"
  shows "idle w w' \<and> (r = None \<longrightarrow> pingFailures (ext w') = 0)"
  using waitLoop_sim_step [OF assms] by simp

lemma Wait_sim:
  assumes "Wait simSys db w = Some (r, w')"
  shows "idle w w' \<and> (r = None \<longrightarrow> pingFailures (ext w') = 0 \<and> GetDriver simSys db = Inr simDriver)"
proof (cases "GetDriver simSys db")
  case (Inl e)
  with assms show ?thesis by (auto simp: Wait_def)
next
  case (Inr drv)
  with GetDriver_sim have d: "GetDriver simSys db = Inr simDriver" by blast
  obtain p w1 where pg: "Ping simDriver (DatabaseURL db) w = (p, w1)"
    by (cases "Ping simDriver (DatabaseURL db) w")
  from Ping_sim [OF pg] have i1: "idle w w1"
    and z: "p = None \<longrightarrow> pingFailures (ext w1) = 0" by simp_all
  show ?thesis
  proof (cases p)
    case None
    with assms d pg have "r = None" "w' = w1" by (simp_all add: Wait_def)
    with i1 z None d show ?thesis by simp
  next
    case (Some e)
    with assms d pg
    have "waitLoop simSys simDriver db 0 e (Print ''Waiting for database'' w1) = Some (r, w')"
      by (simp add: Wait_def)
    from waitLoop_sim [OF this]
    have i3: "idle (Print ''Waiting for database'' w1) w'"
      and z3: "r = None \<longrightarrow> pingFailures (ext w') = 0"
      by simp_all
    from idle_trans [OF idle_trans [OF i1 idle_Print] i3] z3 d show ?thesis by simp
  qed
qed

lemma Wait_sim_ready:
  assumes "pingFailures (ext w) = 0" "GetDriver simSys db = Inr simDriver"
  shows "\<exists>w'. Wait simSys db w = Some (None, w')"
proof -
  obtain p w1 where pg: "Ping simDriver (DatabaseURL db) w = (p, w1)"
    by (cases "Ping simDriver (DatabaseURL db) w")
  from Ping_sim [OF pg] assms(1) have "p = None" by simp
  with pg assms(2) show ?thesis by (simp add: Wait_def)
qed

lemma openDatabaseForMigration_sim:
  assumes "openDatabaseForMigration simSys db w = (x, w')"
  shows "idle w w' \<and> (\<forall>drv c. x = Inr (drv, c) \<longrightarrow> drv = simDriver \<and> GetDriver simSys db = Inr simDriver)"
proof (cases "GetDriver simSys db")
  case (Inl e)
  with assms show ?thesis by (auto simp: openDatabaseForMigration_def)
next
  case (Inr drv)
  with GetDriver_sim have d: "GetDriver simSys db = Inr simDriver" by blast
  obtain o1 w1 where op: "Open simDriver (DatabaseURL db) w = (o1, w1)"
    by (cases "Open simDriver (DatabaseURL db) w")
  from Open_sim [OF op] obtain c where i1: "idle w w1" and o1: "o1 = Inr c" by blast
  obtain t w2 where ct: "CreateMigrationsTable simDriver c w1 = (t, w2)"
    by (cases "CreateMigrationsTable simDriver c w1")
  from CreateMigrationsTable_sim [OF ct] have i2: "idle w1 w2" and t: "t = None" by simp_all
  from assms d op o1 ct t have "x = Inr (simDriver, c)" "w' = w2"
    by (simp_all add: openDatabaseForMigration_def)
  with idle_trans [OF i1 i2] d show ?thesis by simp
qed

lemma openDatabaseForMigration_sim_ready:
  assumes "GetDriver simSys db = Inr simDriver"
  shows "\<exists>c w'. openDatabaseForMigration simSys db w = (Inr (simDriver, c), w')"
proof -
  obtain o1 w1 where op: "Open simDriver (DatabaseURL db) w = (o1, w1)"
    by (cases "Open simDriver (DatabaseURL db) w")
  from Open_sim [OF op] obtain c where o1: "o1 = Inr c" by blast
  obtain t w2 where ct: "CreateMigrationsTable simDriver c w1 = (t, w2)"
    by (cases "CreateMigrationsTable simDriver c w1")
  from CreateMigrationsTable_sim [OF ct] have t: "t = None" by simp
  from assms op o1 ct t show ?thesis by (simp add: openDatabaseForMigration_def)
qed

lemma dumpSchemaBody_sim:
  assumes "dumpSchemaBody simSys db simDriver c w = (r, w')"
  shows "idle w w'"
proof -
  obtain x w1 where d: "DriverDumpSchema simDriver (DatabaseURL db) c w = (x, w1)"
    by (cases "DriverDumpSchema simDriver (DatabaseURL db) c w")
  from DriverDumpSchema_sim [OF d] have i1: "idle w w1" .
  show ?thesis
  proof (cases x)
    case (Inl e)
    with assms d i1 show ?thesis by (simp add: dumpSchemaBody_def)
  next
    case (Inr schema)
    let ?w1 = "Print (''Writing: '' @ SchemaFile db @ [nl]) w1"
    obtain e w2 where en: "ensureDir simSys (sysDir simSys (SchemaFile db)) ?w1 = (e, w2)"
      by (cases "ensureDir simSys (sysDir simSys (SchemaFile db)) ?w1")
    from ensureDir_sim [OF en] have "idle ?w1 w2" .
    with i1 have i2: "idle w w2" by (blast intro: idle_trans idle_Print)
    show ?thesis
    proof (cases e)
      case (Some a)
      with assms d Inr en i2 show ?thesis by (simp add: dumpSchemaBody_def)
    next
      case None
      with assms d Inr en have "WriteFile simSys (SchemaFile db) schema w2 = (r, w')"
        by (simp add: dumpSchemaBody_def)
      from WriteFile_sim [OF this] i2 show ?thesis by (blast intro: idle_trans)
    qed
  qed
qed

lemma dumpSchemaOpen_sim:
  assumes "dumpSchemaOpen simSys db w = (r, w')"
  shows "idle w w'"
proof -
  obtain x w1 where o: "openDatabaseForMigration simSys db w = (x, w1)"
    by (cases "openDatabaseForMigration simSys db w")
  from openDatabaseForMigration_sim [OF o] have i1: "idle w w1"
    and dr: "\<forall>drv c. x = Inr (drv, c) \<longrightarrow> drv = simDriver" by simp_all
  show ?thesis
  proof (cases x)
    case (Inl e)
    with assms o i1 show ?thesis by (simp add: dumpSchemaOpen_def)
  next
    case (Inr p)
    with dr obtain c where p: "x = Inr (simDriver, c)" by (cases p) auto
    obtain r2 w2 where b: "dumpSchemaBody simSys db simDriver c w1 = (r2, w2)"
      by (cases "dumpSchemaBody simSys db simDriver c w1")
    from dumpSchemaBody_sim [OF b] have i2: "idle w1 w2" .
    from assms o p b have "w' = mustClose simSys c w2" by (simp add: dumpSchemaOpen_def)
    with i1 i2 idle_simple(1) [of w2 c] show ?thesis by (blast intro: idle_trans)
  qed
qed

lemma DumpSchema_sim:
  assumes "DumpSchema simSys db w = Some (r, w')"
  shows "idle w w'"
proof (cases "WaitBefore db")
  case False
  with assms have "dumpSchemaOpen simSys db w = (r, w')" by (simp add: DumpSchema_def)
  from dumpSchemaOpen_sim [OF this] show ?thesis .
next
  case True
  with assms obtain r1 w1 where wt: "Wait simSys db w = Some (r1, w1)"
    by (auto simp: DumpSchema_def split: option.splits)
  from Wait_sim [OF wt] have i1: "idle w w1" by simp
  show ?thesis
  proof (cases r1)
    case (Some e)
    with assms True wt i1 show ?thesis by (simp add: DumpSchema_def)
  next
    case None
    with assms True wt have "dumpSchemaOpen simSys db w1 = (r, w')" by (simp add: DumpSchema_def)
    from dumpSchemaOpen_sim [OF this] i1 show ?thesis by (blast intro: idle_trans)
  qed
qed

lemma DumpSchema_sim_ready:
  assumes "WaitBefore db \<longrightarrow> pingFailures (ext w) = 0" "GetDriver simSys db = Inr simDriver"
  shows "\<exists>res. DumpSchema simSys db w = Some res"
proof (cases "WaitBefore db")
  case False
  then show ?thesis by (simp add: DumpSchema_def)
next
  case True
  with assms Wait_sim_ready [of w db] obtain w1 where "Wait simSys db w = Some (None, w1)"
    by blast
  with True show ?thesis by (simp add: DumpSchema_def)
qed

lemma findMigrationFiles_sim:
  assumes "findMigrationFiles simSys dir re w = (x, w')"
  shows "idle w w' \<and> ext w' = ext w
       \<and> (\<forall>files. x = Inr files \<longrightarrow>
            (\<exists>es. map_of (dirs (ext w)) dir = Some es \<and> files = matchingFiles re es))
       \<and> (\<forall>es. map_of (dirs (ext w)) dir = Some es \<longrightarrow> x = Inr (matchingFiles re es))"
proof -
  obtain y w1 where rd: "ReadDir simSys dir w = (y, w1)" by (cases "ReadDir simSys dir w")
  from ReadDir_sim [OF rd] have i: "idle w w1" and e: "ext w1 = ext w"
    and y: "y = (case map_of (dirs (ext w)) dir of None \<Rightarrow> Inl ''no such directory''
                 | Some es \<Rightarrow> Inr es)"
    by simp_all
  show ?thesis
  proof (cases "map_of (dirs (ext w)) dir")
    case None
    with y have "y = Inl ''no such directory''" by simp
    with assms rd have "w' = w1" "x = Inl (''could not find migrations directory '' @ [bquote] @ dir @ [bquote])"
      by (simp_all add: findMigrationFiles_def)
    with i e None show ?thesis by simp
  next
    case (Some es)
    with y have "y = Inr es" by simp
    with assms rd have "w' = w1" "x = Inr (matchingFiles re es)"
      by (simp_all add: findMigrationFiles_def matchingFiles_def)
    with i e Some show ?thesis by simp
  qed
qed


lemma execStatements_sim:
  "execStatements simSys tx qs w = (r, w') \<Longrightarrow>
     sameSetting (ext w) (ext w') \<and> rows (ext w') = rows (ext w)"
proof (induction qs arbitrary: w)
  case Nil
  then show ?case by simp
next
  case (Cons q qs)
  obtain e w1 where ex: "Exec simSys tx q w = (e, w1)" by (cases "Exec simSys tx q w")
  from Exec_sim [OF ex] have s1: "sameSetting (ext w) (ext w1)" "rows (ext w1) = rows (ext w)"
    by simp_all
  show ?case
  proof (cases e)
    case (Some a)
    with Cons.prems ex s1 show ?thesis by simp
  next
    case None
    with Cons.prems ex have "execStatements simSys tx qs w1 = (r, w')" by simp
    from Cons.IH [OF this] s1 show ?thesis by (auto intro: sameSetting_trans)
  qed
qed

lemma executeScript_sim:
  assumes "executeScript simSys tx script native w = (r, w')"
  shows "sameSetting (ext w) (ext w') \<and> rows (ext w') = rows (ext w)"
proof (cases native)
  case True
  with assms Exec_sim [of tx script "Print (''Executing script on native engine'' @ [nl]) w" r w']
  show ?thesis by (simp add: executeScript_def)
next
  case False
  with assms execStatements_sim [of tx "parseStatements script"
      "Print (''Executing script on DBMate engine'' @ [nl]) w" r w']
  show ?thesis by (simp add: executeScript_def)
qed

lemma execMigrationUp_sim:
  assumes "execMigrationUp simSys simDriver native up v tx w = (None, w')"
  shows "sameSetting (ext w) (ext w') \<and> v \<notin> set (rows (ext w)) \<and> rows (ext w') = v # rows (ext w)"
proof -
  obtain e w1 where ex: "executeScript simSys tx (Contents up) native w = (e, w1)"
    by (cases "executeScript simSys tx (Contents up) native w")
  from executeScript_sim [OF ex]
  have s1: "sameSetting (ext w) (ext w1)" "rows (ext w1) = rows (ext w)" by simp_all
  from assms ex have e: "e = None" by (cases e) (simp_all add: execMigrationUp_def)
  with assms ex have "InsertMigration simDriver tx v w1 = (None, w')"
    by (simp add: execMigrationUp_def)
  from InsertMigration_sim [OF this] s1 show ?thesis by (auto intro: sameSetting_trans)
qed

lemma execMigrationDown_sim:
  assumes "execMigrationDown simSys simDriver native down v tx w = (None, w')"
  shows "sameSetting (ext w) (ext w') \<and> rows (ext w') = removeAll v (rows (ext w))"
proof -
  obtain e w1 where ex: "executeScript simSys tx (Contents down) native w = (e, w1)"
    by (cases "executeScript simSys tx (Contents down) native w")
  from executeScript_sim [OF ex]
  have s1: "sameSetting (ext w) (ext w1)" "rows (ext w1) = rows (ext w)" by simp_all
  from assms ex have e: "e = None" by (cases e) (simp_all add: execMigrationDown_def)
  with assms ex have "DeleteMigration simDriver tx v w1 = (None, w')"
    by (simp add: execMigrationDown_def)
  from DeleteMigration_sim [OF this] s1 show ?thesis by (auto intro: sameSetting_trans)
qed

lemma doTransaction_sim:
  assumes "doTransaction simSys c body w = (None, w')"
  shows "\<exists>tx w1 w2. sameSetting (ext w) (ext w1) \<and> rows (ext w1) = rows (ext w)
           \<and> body (OnTx tx) w1 = (None, w2)
           \<and> sameSetting (ext w2) (ext w') \<and> rows (ext w') = rows (ext w2)"
proof -
  obtain x w1 where b: "Begin simSys c w = (x, w1)" by (cases "Begin simSys c w")
  from Begin_sim [OF b] obtain tx where s1: "sameSetting (ext w) (ext w1)"
    "rows (ext w1) = rows (ext w)" and x: "x = Inr tx" by blast
  obtain e w2 where bd: "body (OnTx tx) w1 = (e, w2)" by (cases "body (OnTx tx) w1")
  have e: "e = None"
  proof (cases e)
    case (Some a)
    with assms b x bd show ?thesis
      by (auto simp: doTransaction_def split: prod.splits option.splits)
  qed simp
  with assms b x bd have "Commit simSys tx w2 = (None, w')" by (simp add: doTransaction_def)
  from Commit_sim [OF this] have "sameSetting (ext w2) (ext w')" "rows (ext w') = rows (ext w2)"
    by simp_all
  with s1 bd e show ?thesis by blast
qed

lemma isApplied_rows: "isApplied (map (\<lambda>v. (v, True)) rs) v \<longleftrightarrow> v \<in> set rs"
proof -
  have "map_of (map (\<lambda>v. (v, True)) rs) v = (if v \<in> set rs then Some True else None)"
    by (induction rs) auto
  then show ?thesis by (simp add: isApplied_def)
qed

lemma migrateFiles_sim:
  "migrateFiles simSys db simDriver c native vs files w = (None, w') \<Longrightarrow>
     sameSetting (ext w) (ext w')
     \<and> rows (ext w') = rev (map migrationVersion (pendingFiles vs files)) @ rows (ext w)"
proof (induction files arbitrary: w)
  case Nil
  then show ?case by (simp add: pendingFiles_def)
next
  case (Cons f fs)
  show ?case
  proof (cases "isApplied vs (migrationVersion f)")
    case True
    with Cons.prems have "migrateFiles simSys db simDriver c native vs fs w = (None, w')"
      by simp
    from Cons.IH [OF this] True show ?thesis by (simp add: pendingFiles_def)
  next
    case False
    let ?w0 = "Print (''Applying: '' @ f @ [nl]) w"
    let ?v = "migrationVersion f"
    obtain x w1 where pm: "parseMigration simSys (sysJoin simSys (MigrationsDir db) f) ?w0 = (x, w1)"
      by (cases "parseMigration simSys (sysJoin simSys (MigrationsDir db) f) ?w0")
    from parseMigration_sim [OF pm] have e1: "ext w1 = ext w" by simp
    from Cons.prems False pm obtain up down where x: "x = Inr (up, down)"
      by (cases x) auto
    let ?run = "if OptionsTransaction up then
                  doTransaction simSys c (execMigrationUp simSys simDriver native up ?v) w1
                else execMigrationUp simSys simDriver native up ?v (OnDB c) w1"
    obtain e w2 where rn: "?run = (e, w2)" by (cases ?run)
    have e: "e = None"
    proof (cases e)
      case (Some a)
      with Cons.prems False pm x rn show ?thesis by simp
    qed simp
    have s2: "sameSetting (ext w1) (ext w2) \<and> rows (ext w2) = ?v # rows (ext w1)"
    proof (cases "OptionsTransaction up")
      case True
      with rn e have "doTransaction simSys c (execMigrationUp simSys simDriver native up ?v) w1
          = (None, w2)" by simp
      from doTransaction_sim [OF this] obtain tx wa wb where
        a: "sameSetting (ext w1) (ext wa)" "rows (ext wa) = rows (ext w1)"
        and b: "execMigrationUp simSys simDriver native up ?v (OnTx tx) wa = (None, wb)"
        and c: "sameSetting (ext wb) (ext w2)" "rows (ext w2) = rows (ext wb)"
        by blast
      from execMigrationUp_sim [OF b] a c show ?thesis
        by (auto intro: sameSetting_trans)
    next
      case False
      with rn e have "execMigrationUp simSys simDriver native up ?v (OnDB c) w1 = (None, w2)"
        by simp
      from execMigrationUp_sim [OF this] show ?thesis by simp
    qed
    from Cons.prems False pm x rn e
    have "migrateFiles simSys db simDriver c native vs fs w2 = (None, w')" by simp
    from Cons.IH [OF this] s2 e1 False show ?thesis
      by (auto simp: pendingFiles_def intro: sameSetting_trans)
  qed
qed

lemma migrateFiles_none_pending:
  "pendingFiles vs files = [] \<Longrightarrow> migrateFiles sys db drv c native vs files w = (None, w)"
  by (induction files) (auto simp: pendingFiles_def split: if_splits)


lemma idle_rows: "idle w w' \<Longrightarrow> rows (ext w') = rows (ext w)"
  by (simp add: idle_def del: since_append)

lemma idle_executed: "idle w w' \<Longrightarrow> executed (ext w') = executed (ext w)"
  by (simp add: idle_def del: since_append)

lemma idle_kinds: "idle w w' \<Longrightarrow> kinds (since w w') \<subseteq> {ListK, Probe, Conn, Table, Query, Dump}"
  by (simp add: idle_def del: since_append)

lemma idle_pingFailures: "idle w w' \<Longrightarrow> pingFailures (ext w) = 0 \<Longrightarrow> pingFailures (ext w') = 0"
  by (simp add: idle_def sameSetting_def del: since_append)

lemma sameSetting_pingFailures:
  "sameSetting s s' \<Longrightarrow> pingFailures s = 0 \<Longrightarrow> pingFailures s' = 0"
  by (simp add: sameSetting_def)

lemma migrateBody_sim:
  assumes "migrateBody simSys db simDriver c files w = Some (None, w')"
  shows "sameSetting (ext w) (ext w')
       \<and> rows (ext w') = rev (map migrationVersion
            (pendingFiles (map (\<lambda>v. (v, True)) (rows (ext w))) files)) @ rows (ext w)"
proof -
  let ?vs = "map (\<lambda>v. (v, True)) (rows (ext w))"
  obtain x w1 where sl: "SelectMigrations simDriver c (- 1) w = (x, w1)"
    by (cases "SelectMigrations simDriver c (- 1) w")
  from SelectMigrations_sim [OF sl] have e1: "ext w1 = ext w" and x: "x = Inr ?vs" by simp_all
  obtain e w2 where mf: "migrateFiles simSys db simDriver c (useNativeEngine db) ?vs files w1 = (e, w2)"
    by (cases "migrateFiles simSys db simDriver c (useNativeEngine db) ?vs files w1")
  have e: "e = None"
  proof (cases e)
    case (Some a)
    with assms sl x mf show ?thesis by (simp add: migrateBody_def)
  qed simp
  from migrateFiles_sim [OF mf [unfolded e]] e1
  have s2: "sameSetting (ext w) (ext w2)"
    "rows (ext w2) = rev (map migrationVersion (pendingFiles ?vs files)) @ rows (ext w)"
    by simp_all
  show ?thesis
  proof (cases "AutoDumpSchema db")
    case False
    with assms sl x mf e have "w' = w2" by (simp add: migrateBody_def)
    with s2 show ?thesis by simp
  next
    case True
    with assms sl x mf e obtain r3 where "DumpSchema simSys db w2 = Some (r3, w')"
      by (auto simp: migrateBody_def split: option.splits)
    from DumpSchema_sim [OF this] have i3: "idle w2 w'" .
    from sameSetting_trans [OF s2(1) idle_setting [OF i3]] idle_rows [OF i3] s2(2)
    show ?thesis by simp
  qed
qed

lemma migrateOpen_sim:
  assumes "migrateOpen simSys db files w = Some (None, w')"
  shows "sameSetting (ext w) (ext w')
       \<and> rows (ext w') = rev (map migrationVersion
            (pendingFiles (map (\<lambda>v. (v, True)) (rows (ext w))) files)) @ rows (ext w)
       \<and> GetDriver simSys db = Inr simDriver"
proof -
  obtain x w1 where o: "openDatabaseForMigration simSys db w = (x, w1)"
    by (cases "openDatabaseForMigration simSys db w")
  from openDatabaseForMigration_sim [OF o] have i1: "idle w w1"
    and dr: "\<forall>drv c. x = Inr (drv, c) \<longrightarrow> drv = simDriver \<and> GetDriver simSys db = Inr simDriver"
    by simp_all
  from assms o obtain p where "x = Inr p" by (cases x) (simp_all add: migrateOpen_def)
  with dr obtain c where x: "x = Inr (simDriver, c)" and g: "GetDriver simSys db = Inr simDriver"
    by (cases p) auto
  from assms o x obtain w2 where b: "migrateBody simSys db simDriver c files w1 = Some (None, w2)"
    and w': "w' = mustClose simSys c w2"
    by (auto simp: migrateOpen_def split: option.splits)
  from migrateBody_sim [OF b] idle_rows [OF i1]
  have s2: "sameSetting (ext w1) (ext w2)"
    "rows (ext w2) = rev (map migrationVersion
        (pendingFiles (map (\<lambda>v. (v, True)) (rows (ext w))) files)) @ rows (ext w)"
    by simp_all
  from idle_simple(1) [of w2 c] w' have i3: "idle w2 w'" by simp
  from sameSetting_trans [OF sameSetting_trans [OF idle_setting [OF i1] s2(1)] idle_setting [OF i3]]
    s2(2) idle_rows [OF i3] g
  show ?thesis by simp
qed

lemma Migrate_sim:
  assumes "Migrate simSys db w = Some (None, w')"
  shows "\<exists>es. map_of (dirs (ext w)) (MigrationsDir db) = Some es
          \<and> matchingFiles migrationFileRegexp es \<noteq> []
          \<and> sameSetting (ext w) (ext w')
          \<and> rows (ext w') = rev (map migrationVersion (pendingIn db (ext w))) @ rows (ext w)
          \<and> (WaitBefore db \<longrightarrow> pingFailures (ext w') = 0)
          \<and> GetDriver simSys db = Inr simDriver"
proof -
  obtain x w1 where f: "findMigrationFiles simSys (MigrationsDir db) migrationFileRegexp w = (x, w1)"
    by (cases "findMigrationFiles simSys (MigrationsDir db) migrationFileRegexp w")
  from findMigrationFiles_sim [OF f] have i1: "idle w w1" and e1: "ext w1 = ext w"
    and fx: "\<forall>files. x = Inr files \<longrightarrow>
            (\<exists>es. map_of (dirs (ext w)) (MigrationsDir db) = Some es
               \<and> files = matchingFiles migrationFileRegexp es)"
    by simp_all
  from assms f obtain files where x: "x = Inr files" by (cases x) (simp_all add: Migrate_def)
  with fx obtain es where es: "map_of (dirs (ext w)) (MigrationsDir db) = Some es"
    and files: "files = matchingFiles migrationFileRegexp es" by blast
  from assms f x have ne: "files \<noteq> []" by (auto simp: Migrate_def)
  have p: "pendingIn db (ext w) = pendingFiles (map (\<lambda>v. (v, True)) (rows (ext w))) files"
    using es files by (simp add: pendingIn_def)
  have "\<exists>w2. idle w w2 \<and> (WaitBefore db \<longrightarrow> pingFailures (ext w2) = 0)
          \<and> migrateOpen simSys db files w2 = Some (None, w')"
  proof (cases "WaitBefore db")
    case False
    with assms f x ne have "migrateOpen simSys db files w1 = Some (None, w')"
      by (simp add: Migrate_def)
    with i1 False show ?thesis by blast
  next
    case True
    with assms f x ne obtain r2 w2 where wt: "Wait simSys db w1 = Some (r2, w2)"
      by (auto simp: Migrate_def split: option.splits)
    with assms f x ne True have r2: "r2 = None"
      by (cases r2) (simp_all add: Migrate_def)
    with assms f x ne True wt have m: "migrateOpen simSys db files w2 = Some (None, w')"
      by (simp add: Migrate_def)
    from Wait_sim [OF wt] r2 have "idle w1 w2" "pingFailures (ext w2) = 0" by simp_all
    with idle_trans [OF i1] m show ?thesis by blast
  qed
  then obtain w2 where i2: "idle w w2" and z: "WaitBefore db \<longrightarrow> pingFailures (ext w2) = 0"
    and m: "migrateOpen simSys db files w2 = Some (None, w')" by blast
  from migrateOpen_sim [OF m] idle_rows [OF i2]
  have s3: "sameSetting (ext w2) (ext w')"
    and r3: "rows (ext w') = rev (map migrationVersion
        (pendingFiles (map (\<lambda>v. (v, True)) (rows (ext w))) files)) @ rows (ext w)"
    and g: "GetDriver simSys db = Inr simDriver"
    by simp_all
  from z sameSetting_pingFailures [OF s3] have "WaitBefore db \<longrightarrow> pingFailures (ext w') = 0"
    by blast
  with es files ne sameSetting_trans [OF idle_setting [OF i2] s3] r3 p g show ?thesis by simp
qed

subsection \<open>C6: a second Migrate applies nothing\<close>

lemma pendingFiles_after:
  "pendingFiles (map (\<lambda>v. (v, True))
      (rev (map migrationVersion (pendingFiles (map (\<lambda>v. (v, True)) rs) files)) @ rs)) files = []"
  unfolding pendingFiles_def isApplied_rows by (auto simp: filter_empty_conv)

lemma Migrate_sim_again:
  assumes es: "map_of (dirs (ext w)) (MigrationsDir db) = Some es"
    and ne: "matchingFiles migrationFileRegexp es \<noteq> []"
    and np: "pendingIn db (ext w) = []"
    and pf: "WaitBefore db \<longrightarrow> pingFailures (ext w) = 0"
    and g: "GetDriver simSys db = Inr simDriver"
  shows "\<exists>w'. Migrate simSys db w = Some (None, w') \<and> idle w w'"
proof -
  let ?files = "matchingFiles migrationFileRegexp es"
  obtain x w1 where f: "findMigrationFiles simSys (MigrationsDir db) migrationFileRegexp w = (x, w1)"
    by (cases "findMigrationFiles simSys (MigrationsDir db) migrationFileRegexp w")
  from findMigrationFiles_sim [OF f] have i1: "idle w w1"
    and xs: "\<forall>es. map_of (dirs (ext w)) (MigrationsDir db) = Some es \<longrightarrow>
               x = Inr (matchingFiles migrationFileRegexp es)"
    by blast+
  from xs es have x: "x = Inr ?files" by blast
  have "\<exists>w2. idle w w2 \<and> (WaitBefore db \<longrightarrow> pingFailures (ext w2) = 0)
          \<and> Migrate simSys db w = migrateOpen simSys db ?files w2"
  proof (cases "WaitBefore db")
    case False
    with f x ne have "Migrate simSys db w = migrateOpen simSys db ?files w1"
      by (simp add: Migrate_def)
    with i1 False show ?thesis by blast
  next
    case True
    with pf idle_pingFailures [OF i1] have "pingFailures (ext w1) = 0" by simp
    from Wait_sim_ready [OF this g] obtain w2 where wt: "Wait simSys db w1 = Some (None, w2)"
      by blast
    from Wait_sim [OF wt] have "idle w1 w2" "pingFailures (ext w2) = 0" by simp_all
    moreover from True f x ne wt have "Migrate simSys db w = migrateOpen simSys db ?files w2"
      by (simp add: Migrate_def)
    ultimately show ?thesis using idle_trans [OF i1] by blast
  qed
  then obtain w2 where i2: "idle w w2" and z2: "WaitBefore db \<longrightarrow> pingFailures (ext w2) = 0"
    and m: "Migrate simSys db w = migrateOpen simSys db ?files w2" by blast
  from openDatabaseForMigration_sim_ready [OF g] obtain c w3 where
    o: "openDatabaseForMigration simSys db w2 = (Inr (simDriver, c), w3)" by blast
  from openDatabaseForMigration_sim [OF o] have i3: "idle w2 w3" by simp
  obtain y w4 where sl: "SelectMigrations simDriver c (- 1) w3 = (y, w4)"
    by (cases "SelectMigrations simDriver c (- 1) w3")
  from SelectMigrations_sim [OF sl] have i4: "idle w3 w4"
    and y: "y = Inr (map (\<lambda>v. (v, True)) (rows (ext w3)))" by simp_all
  have i04: "idle w w4" by (rule idle_trans [OF idle_trans [OF i2 i3] i4])
  have r3: "rows (ext w3) = rows (ext w)" by (rule idle_rows [OF idle_trans [OF i2 i3]])
  from np es have "pendingFiles (map (\<lambda>v. (v, True)) (rows (ext w))) ?files = []"
    by (simp add: pendingIn_def)
  from migrateFiles_none_pending [OF this]
  have mf: "migrateFiles simSys db simDriver c (useNativeEngine db)
      (map (\<lambda>v. (v, True)) (rows (ext w3))) ?files w4 = (None, w4)"
    unfolding r3 .
  have "\<exists>w5. idle w w5 \<and> migrateBody simSys db simDriver c ?files w3 = Some (None, w5)"
  proof (cases "AutoDumpSchema db")
    case False
    with sl y mf have "migrateBody simSys db simDriver c ?files w3 = Some (None, w4)"
      by (simp add: migrateBody_def)
    with i04 show ?thesis by blast
  next
    case True
    from z2 idle_pingFailures [OF idle_trans [OF i3 i4]]
    have "WaitBefore db \<longrightarrow> pingFailures (ext w4) = 0" by blast
    from DumpSchema_sim_ready [OF this g] obtain res where "DumpSchema simSys db w4 = Some res"
      by blast
    then obtain r5 w5 where d: "DumpSchema simSys db w4 = Some (r5, w5)" by (cases res) simp
    from DumpSchema_sim [OF d] have "idle w4 w5" .
    moreover from True sl y mf d
    have "migrateBody simSys db simDriver c ?files w3 = Some (None, w5)"
      by (simp add: migrateBody_def)
    ultimately show ?thesis using idle_trans [OF i04] by blast
  qed
  then obtain w5 where i5: "idle w w5"
    and b: "migrateBody simSys db simDriver c ?files w3 = Some (None, w5)" by blast
  from m o b have "Migrate simSys db w = Some (None, mustClose simSys c w5)"
    by (simp add: migrateOpen_def)
  with idle_trans [OF i5 idle_simple(1)] show ?thesis by blast
qed

text \<open>
  C6. On the backend, from every state and with every configuration: if a run of \<open>Migrate\<close>
  succeeds, no file is pending in the state it leaves, and a second run from that state
  returns, succeeds, leaves the bookkeeping rows and the executed statements as they were,
  and makes no call that parses a file, begins a transaction, executes a statement or
  inserts or deletes a bookkeeping row.
\<close>

theorem Migrate_idempotent:
  assumes "Migrate simSys db w = Some (None, w1)"
  shows "pendingIn db (ext w1) = []
       \<and> (\<exists>w2. Migrate simSys db w1 = Some (None, w2)
             \<and> rows (ext w2) = rows (ext w1)
             \<and> executed (ext w2) = executed (ext w1)
             \<and> kinds (since w1 w2) \<subseteq> {ListK, Probe, Conn, Table, Query, Dump})"
proof -
  from Migrate_sim [OF assms] obtain es where
    es: "map_of (dirs (ext w)) (MigrationsDir db) = Some es"
    and ne: "matchingFiles migrationFileRegexp es \<noteq> []"
    and ss: "sameSetting (ext w) (ext w1)"
    and rw: "rows (ext w1) = rev (map migrationVersion (pendingIn db (ext w))) @ rows (ext w)"
    and pf: "WaitBefore db \<longrightarrow> pingFailures (ext w1) = 0"
    and g: "GetDriver simSys db = Inr simDriver"
    by blast
  from ss have d: "dirs (ext w1) = dirs (ext w)" by (simp add: sameSetting_def)
  have es1: "map_of (dirs (ext w1)) (MigrationsDir db) = Some es" using es d by simp
  have np: "pendingIn db (ext w1) = []"
    using es es1 rw pendingFiles_after [of "rows (ext w)" "matchingFiles migrationFileRegexp es"]
    by (simp add: pendingIn_def)
  from Migrate_sim_again [OF es1 ne np pf g] obtain w2 where
    m: "Migrate simSys db w1 = Some (None, w2)" and i: "idle w1 w2" by blast
  from np m idle_rows [OF i] idle_executed [OF i] idle_kinds [OF i] show ?thesis by blast
qed


theorem Migrate_idempotent_witness:
  "\<exists>w1 w2. Migrate simSys simDB (start fixture) = Some (None, w1)
      \<and> rows (ext w1) = [''20200105000000'', ''20200104000000'', ''20200103000000'',
                          ''20200102000000'', ''20200101000000'']
      \<and> pendingIn simDB (ext w1) = []
      \<and> Migrate simSys simDB w1 = Some (None, w2)
      \<and> rows (ext w2) = rows (ext w1)
      \<and> executed (ext w2) = executed (ext w1)
      \<and> kinds (since w1 w2) \<subseteq> {ListK, Probe, Conn, Table, Query, Dump}"
proof -
  from Migrate_fixture obtain w1 where
    m: "Migrate simSys simDB (start fixture) = Some (None, w1)"
    and r: "rows (ext w1) = [''20200105000000'', ''20200104000000'', ''20200103000000'',
                          ''20200102000000'', ''20200101000000'']"
    by blast
  from Migrate_idempotent [OF m] r m show ?thesis by blast
qed

subsection \<open>C7: Migrate, then Rollback\<close>

lemma findMigrationFile_sim:
  assumes "findMigrationFile simSys dir ver w = (r, w')"
  shows "ext w' = ext w"
proof (cases "ver = [] \<or> \<not> validUTF8 (versionPattern ver)")
  case True
  with assms show ?thesis by (auto simp: findMigrationFile_def split: if_splits)
next
  case False
  obtain x w1 where f: "findMigrationFiles simSys dir (versionFileRegexp ver) w = (x, w1)"
    by (cases "findMigrationFiles simSys dir (versionFileRegexp ver) w")
  from findMigrationFiles_sim [OF f] have e: "ext w1 = ext w" by blast
  from assms f False have "w' = w1"
    by (auto simp: findMigrationFile_def split: sum.splits list.splits)
  with e show ?thesis by simp
qed

lemma revertLatest_sim:
  assumes "revertLatest simSys db simDriver c latest w = (Returns None, w')"
  shows "sameSetting (ext w) (ext w') \<and> rows (ext w') = removeAll latest (rows (ext w))"
proof -
  obtain rf w1 where f: "findMigrationFile simSys (MigrationsDir db) latest w = (rf, w1)"
    by (cases "findMigrationFile simSys (MigrationsDir db) latest w")
  from findMigrationFile_sim [OF f] have e1: "ext w1 = ext w" .
  from assms f obtain name where rf: "rf = Returns (Inr name)"
    by (auto simp: revertLatest_def split: outcome.splits sum.splits)
  let ?w1 = "Print (''Rolling back: '' @ name @ [nl]) w1"
  obtain pr w2 where p: "parseMigration simSys (sysJoin simSys (MigrationsDir db) name) ?w1 = (pr, w2)"
    by (cases "parseMigration simSys (sysJoin simSys (MigrationsDir db) name) ?w1")
  from parseMigration_sim [OF p] e1 have e2: "ext w2 = ext w" by simp
  from assms f rf p obtain up down where pr: "pr = Inr (up, down)"
    by (cases pr) (auto simp: revertLatest_def)
  let ?run = "if OptionsTransaction down then
                doTransaction simSys c
                  (execMigrationDown simSys simDriver (useNativeEngine db) down latest) w2
              else execMigrationDown simSys simDriver (useNativeEngine db) down latest (OnDB c) w2"
  from assms f rf p pr have rn: "?run = (None, w')"
    by (auto simp: revertLatest_def split: prod.splits)
  have "sameSetting (ext w2) (ext w') \<and> rows (ext w') = removeAll latest (rows (ext w2))"
  proof (cases "OptionsTransaction down")
    case True
    with rn have "doTransaction simSys c
        (execMigrationDown simSys simDriver (useNativeEngine db) down latest) w2 = (None, w')"
      by simp
    from doTransaction_sim [OF this] obtain tx wa wb where
      a: "sameSetting (ext w2) (ext wa)" "rows (ext wa) = rows (ext w2)"
      and b: "execMigrationDown simSys simDriver (useNativeEngine db) down latest (OnTx tx) wa
               = (None, wb)"
      and c: "sameSetting (ext wb) (ext w')" "rows (ext w') = rows (ext wb)"
      by blast
    from execMigrationDown_sim [OF b] a c show ?thesis
      by (auto intro: sameSetting_trans)
  next
    case False
    with rn have "execMigrationDown simSys simDriver (useNativeEngine db) down latest (OnDB c) w2
        = (None, w')" by simp
    from execMigrationDown_sim [OF this] show ?thesis by simp
  qed
  with e2 show ?thesis by simp
qed

lemma rollbackBody_sim:
  assumes "rollbackBody simSys db simDriver c w = Some (Returns None, w')"
  shows "sameSetting (ext w) (ext w')
       \<and> (\<exists>v rest. rows (ext w) = v # rest \<and> rows (ext w') = removeAll v rest)"
proof -
  let ?vs = "map (\<lambda>v. (v, True)) (take (nat 1) (rows (ext w)))"
  obtain x w1 where sl: "SelectMigrations simDriver c 1 w = (x, w1)"
    by (cases "SelectMigrations simDriver c 1 w")
  from SelectMigrations_sim [OF sl] have e1: "ext w1 = ext w" and x: "x = Inr ?vs" by simp_all
  from assms sl x have ne: "latestVersion ?vs \<noteq> []"
    by (auto simp: rollbackBody_unfold split: if_splits)
  then obtain v rest where rw: "rows (ext w) = v # rest"
    by (cases "rows (ext w)") (simp_all add: latestVersion_def)
  then have lv: "latestVersion ?vs = v" by (simp add: latestVersion_def)
  obtain rl w2 where rv: "revertLatest simSys db simDriver c v w1 = (rl, w2)"
    by (cases "revertLatest simSys db simDriver c v w1")
  from assms sl x ne lv rv have rl: "rl = Returns None"
    by (auto simp: rollbackBody_unfold split: outcome.splits option.splits if_splits)
  from revertLatest_sim [OF rv [unfolded rl]] e1 rw
  have s2: "sameSetting (ext w) (ext w2)" "rows (ext w2) = removeAll v rest" by simp_all
  show ?thesis
  proof (cases "AutoDumpSchema db")
    case False
    with assms sl x ne lv rv rl have "w' = w2" by (simp add: rollbackBody_unfold)
    with s2 rw show ?thesis by simp
  next
    case True
    with assms sl x ne lv rv rl obtain r3 where "DumpSchema simSys db w2 = Some (r3, w')"
      by (auto simp: rollbackBody_unfold split: option.splits)
    from DumpSchema_sim [OF this] have i3: "idle w2 w'" .
    from sameSetting_trans [OF s2(1) idle_setting [OF i3]] idle_rows [OF i3] s2(2) rw
    show ?thesis by simp
  qed
qed

lemma rollbackOpen_sim:
  assumes "rollbackOpen simSys db w = Some (Returns None, w')"
  shows "sameSetting (ext w) (ext w')
       \<and> (\<exists>v rest. rows (ext w) = v # rest \<and> rows (ext w') = removeAll v rest)"
proof -
  obtain x w1 where o: "openDatabaseForMigration simSys db w = (x, w1)"
    by (cases "openDatabaseForMigration simSys db w")
  from openDatabaseForMigration_sim [OF o] have i1: "idle w w1"
    and dr: "\<forall>drv c. x = Inr (drv, c) \<longrightarrow> drv = simDriver \<and> GetDriver simSys db = Inr simDriver"
    by simp_all
  from assms o obtain p where "x = Inr p" by (cases x) (simp_all add: rollbackOpen_def)
  with dr obtain c where x: "x = Inr (simDriver, c)" by (cases p) auto
  from assms o x obtain w2 where
    b: "rollbackBody simSys db simDriver c w1 = Some (Returns None, w2)"
    and w': "w' = mustClose simSys c w2"
    by (auto simp: rollbackOpen_def split: option.splits)
  from rollbackBody_sim [OF b] idle_rows [OF i1] obtain v rest where
    s2: "sameSetting (ext w1) (ext w2)" and r1: "rows (ext w) = v # rest"
    and r2: "rows (ext w2) = removeAll v rest"
    by auto
  from idle_simple(1) [of w2 c] w' have i3: "idle w2 w'" by simp
  from sameSetting_trans [OF sameSetting_trans [OF idle_setting [OF i1] s2] idle_setting [OF i3]]
    r1 r2 idle_rows [OF i3]
  show ?thesis by simp
qed

lemma Rollback_sim:
  assumes "Rollback simSys db w = Some (Returns None, w')"
  shows "sameSetting (ext w) (ext w')
       \<and> (\<exists>v rest. rows (ext w) = v # rest \<and> rows (ext w') = removeAll v rest)"
proof (cases "WaitBefore db")
  case False
  with assms have "rollbackOpen simSys db w = Some (Returns None, w')" by (simp add: Rollback_def)
  from rollbackOpen_sim [OF this] show ?thesis .
next
  case True
  with assms obtain r1 w1 where wt: "Wait simSys db w = Some (r1, w1)"
    by (auto simp: Rollback_def split: option.splits)
  with assms True have r1: "r1 = None" by (cases r1) (simp_all add: Rollback_def)
  with assms True wt have ro: "rollbackOpen simSys db w1 = Some (Returns None, w')"
    by (simp add: Rollback_def)
  from Wait_sim [OF wt] have i1: "idle w w1" by simp
  from rollbackOpen_sim [OF ro] idle_rows [OF i1] obtain v rest where
    s2: "sameSetting (ext w1) (ext w')" and r1: "rows (ext w) = v # rest"
    and r2: "rows (ext w') = removeAll v rest"
    by auto
  from sameSetting_trans [OF idle_setting [OF i1] s2] r1 r2 show ?thesis by simp
qed

text \<open>
  C7, as amended. On the backend, from every state and with every configuration: if exactly
  one file is pending, \<open>Migrate\<close> succeeds and the \<open>Rollback\<close> that follows succeeds, then
  \<open>Migrate\<close> has added the row of that file's version in front of the bookkeeping rows and
  \<open>Rollback\<close> has removed it again: the rows are those from before \<open>Migrate\<close>.
\<close>

theorem Migrate_Rollback_round_trip:
  assumes m: "Migrate simSys db w = Some (None, w1)"
    and r: "Rollback simSys db w1 = Some (Returns None, w2)"
    and p: "pendingIn db (ext w) = [f]"
  shows "rows (ext w1) = migrationVersion f # rows (ext w) \<and> rows (ext w2) = rows (ext w)"
proof -
  from Migrate_sim [OF m] p
  have r1: "rows (ext w1) = migrationVersion f # rows (ext w)" by auto
  have "f \<in> set (pendingIn db (ext w))" using p by simp
  then have nin: "migrationVersion f \<notin> set (rows (ext w))"
    by (auto simp: pendingIn_def pendingFiles_def isApplied_rows split: option.splits)
  from Rollback_sim [OF r] r1 have "rows (ext w2) = removeAll (migrationVersion f) (rows (ext w))"
    by auto
  with nin r1 show ?thesis by simp
qed

lemma Migrate_Rollback_fixture:
  "\<exists>w1 w2. Migrate simSys simDB (start fixtureOnePending) = Some (None, w1)
      \<and> Rollback simSys simDB w1 = Some (Returns None, w2)
      \<and> parsed (since w1 w2) = [''db/migrations/'' @ migE]"
  by (simp add: engine_defs sim_defs call_defs name_defs parsed_def fixtureOnePending_def
      since_def)

theorem Migrate_Rollback_round_trip_witness:
  "\<exists>w1 w2. Migrate simSys simDB (start fixtureOnePending) = Some (None, w1)
      \<and> Rollback simSys simDB w1 = Some (Returns None, w2)
      \<and> pendingIn simDB (ext (start fixtureOnePending)) = [migE]
      \<and> rows (ext w1) = migrationVersion migE # rows fixtureOnePending
      \<and> rows (ext w2) = rows fixtureOnePending"
proof -
  from Migrate_Rollback_fixture obtain w1 w2 where
    m: "Migrate simSys simDB (start fixtureOnePending) = Some (None, w1)"
    and r: "Rollback simSys simDB w1 = Some (Returns None, w2)"
    by blast
  have p: "pendingIn simDB (ext (start fixtureOnePending)) = [migE]"
    by (simp add: pendingIn_def pendingFiles_def matchingFiles_def sim_defs name_defs
        fixtureOnePending_def)
  have e: "ext (start fixtureOnePending) = fixtureOnePending" by (simp add: start_def)
  from Migrate_Rollback_round_trip [OF m r p] m r p show ?thesis unfolding e by blast
qed

text \<open>
  The claim as stated fails when more than one file is pending: \<open>Migrate\<close> applies them
  all and \<open>Rollback\<close> reverts the last one only. On the fixture, with three files pending,
  both runs succeed and two more versions are applied than before.
\<close>

theorem Migrate_Rollback_many_pending_counterexample:
  "returned (Migrate simSys simDB (start fixture)) = Some None
   \<and> returned (andThen (Migrate simSys simDB (start fixture)) (Rollback simSys simDB))
       = Some (Returns None)
   \<and> rows fixture = [''20200102000000'', ''20200101000000'']
   \<and> map_option rows
        (backendOf (andThen (Migrate simSys simDB (start fixture)) (Rollback simSys simDB)))
       = Some [''20200104000000'', ''20200103000000'', ''20200102000000'', ''20200101000000'']"
  by (simp add: engine_defs sim_defs call_defs name_defs returned_def backendOf_def andThen_def)

end
